theory Spec2Isabelle
  imports Complex_Main "HOL-Library.Word"
begin

section \<open>Strings of the runtime\<close>

text \<open>
  A string is a list of characters. The operations below are the string methods the
  TypeScript sources call: \<open>trim\<close>, \<open>replace(/\r?\n/g, '')\<close>, \<open>split('|')\<close>,
  \<open>join('|')\<close>, \<open>indexOf\<close>, \<open>toUpperCase\<close> and the test of the
  regular expression \<open>/^[A-Z0-9.=]+$/i\<close>.
\<close>

definition isWhiteSpace :: "char \<Rightarrow> bool" where
  \<comment> \<open>What \<open>trim\<close> strips: TAB, LF, VT, FF, CR, SPACE and NBSP.\<close>
  "isWhiteSpace c \<longleftrightarrow>
     c \<in> set [CHR 0x09, CHR 0x0A, CHR 0x0B, CHR 0x0C, CHR 0x0D, CHR 0x20, CHR 0xA0]"

definition trim :: "string \<Rightarrow> string" where
  "trim s = rev (dropWhile isWhiteSpace (rev (dropWhile isWhiteSpace s)))"

fun removeNewlines :: "string \<Rightarrow> string" where
  \<comment> \<open>\<open>s.replace(/\r?\n/g, '')\<close>: every LF goes, with the CR right before it.\<close>
  "removeNewlines [] = []"
| "removeNewlines [c] = (if c = CHR 0x0A then [] else [c])"
| "removeNewlines (c # d # cs) =
     (if c = CHR 0x0A then removeNewlines (d # cs)
      else if c = CHR 0x0D \<and> d = CHR 0x0A then removeNewlines cs
      else c # removeNewlines (d # cs))"

fun splitStr :: "string \<Rightarrow> char \<Rightarrow> string list" where
  \<comment> \<open>\<open>s.split(sep)\<close> for a one-character separator; never the empty list.\<close>
  "splitStr [] sep = [[]]"
| "splitStr (c # cs) sep =
     (if c = sep then [] # splitStr cs sep
      else (case splitStr cs sep of p # ps \<Rightarrow> (c # p) # ps | [] \<Rightarrow> [[c]]))"

fun joinStr :: "string list \<Rightarrow> char \<Rightarrow> string" where
  "joinStr [] sep = []"
| "joinStr [p] sep = p"
| "joinStr (p # q # ps) sep = p @ sep # joinStr (q # ps) sep"

fun indexOf :: "'a list \<Rightarrow> 'a \<Rightarrow> nat option" where
  \<comment> \<open>\<open>None\<close> stands for the result \<open>-1\<close>.\<close>
  "indexOf [] c = None"
| "indexOf (x # xs) c = (if x = c then Some 0 else map_option Suc (indexOf xs c))"

definition toUpperChar :: "char \<Rightarrow> char" where
  "toUpperChar c =
     (case map_of (zip ''abcdefghijklmnopqrstuvwxyz'' ''ABCDEFGHIJKLMNOPQRSTUVWXYZ'') c of
        Some u \<Rightarrow> u | None \<Rightarrow> c)"

definition toUpperCase :: "string \<Rightarrow> string" where
  \<comment> \<open>Called by the validator on strings that passed the RIC pattern only.\<close>
  "toUpperCase s = map toUpperChar s"

definition ricChar :: "char \<Rightarrow> bool" where
  \<comment> \<open>The class \<open>[A-Z0-9.=]\<close> under the flag \<open>i\<close>.\<close>
  "ricChar c \<longleftrightarrow>
     c \<in> set ''ABCDEFGHIJKLMNOPQRSTUVWXYZabcdefghijklmnopqrstuvwxyz0123456789.=''"

definition ricPattern :: "string \<Rightarrow> bool" where
  \<comment> \<open>\<open>/^[A-Z0-9.=]+$/i.test(s)\<close>\<close>
  "ricPattern s \<longleftrightarrow> s \<noteq> [] \<and> list_all ricChar s"

section \<open>Numbers of the runtime\<close>

text \<open>
  Event timestamps, clock readings and the sequence counter are integers; they are
  printed and read in decimal, as \<open>Number.prototype.toString\<close> and \<open>parseInt(s, 10)\<close>
  do for integers of magnitude below \<open>10^21\<close>. \<open>parseInt\<close> yields \<open>None\<close> for NaN.
\<close>

definition isDigit :: "char \<Rightarrow> bool" where
  "isDigit c \<longleftrightarrow> c \<in> set ''0123456789''"

definition digitChar :: "nat \<Rightarrow> char" where
  "digitChar d = ''0123456789'' ! d"

definition digitValue :: "char \<Rightarrow> nat" where
  "digitValue c = (case indexOf ''0123456789'' c of Some d \<Rightarrow> d | None \<Rightarrow> 0)"

fun digits :: "nat \<Rightarrow> string" where
  "digits n = (if n < 10 then [digitChar n] else digits (n div 10) @ [digitChar (n mod 10)])"

declare digits.simps [simp del]

definition intToString :: "int \<Rightarrow> string" where
  "intToString n = (if n < 0 then CHR ''-'' # digits (nat (- n)) else digits (nat n))"

definition digitsValue :: "string \<Rightarrow> nat" where
  "digitsValue z = foldl (\<lambda>a c. 10 * a + digitValue c) 0 z"

definition parseInt :: "string \<Rightarrow> int option" where
  \<comment> \<open>\<open>parseInt(s, 10)\<close>: leading white space, an optional sign, the longest run of digits.\<close>
  "parseInt s =
     (let S = dropWhile isWhiteSpace s;
          negative = (case S of c # _ \<Rightarrow> c = CHR ''-'' | [] \<Rightarrow> False);
          S' = (case S of c # cs \<Rightarrow> if c = CHR ''+'' \<or> c = CHR ''-'' then cs else S | [] \<Rightarrow> []);
          Z = takeWhile isDigit S'
      in if Z = [] then None
         else Some ((if negative then - 1 else 1) * int (digitsValue Z)))"

text \<open>
  Prices, volumes, bids and asks are numbers of the language, IEEE 754 doubles. A finite
  number is the real it denotes; \<open>parseFloat\<close> may also return NaN or an infinity. How
  the runtime reads and prints such numbers is not code of this repository: it is a
  parameter of the model, and every theorem holds for every runtime.
\<close>

datatype number = NaN | NegInfinity | Finite real | PosInfinity

record runtime =
  parseFloat :: "string \<Rightarrow> number"
  numberToString :: "real \<Rightarrow> string"

text \<open>
  An arithmetic operator of the language returns the double nearest to the exact
  result; of two doubles equally near, the one with the even significand. A double
  whose magnitude lies in the binade from \<open>2^e\<close> up to \<open>2^(e+1)\<close>, for \<open>e\<close> from \<open>-1022\<close> to
  \<open>1023\<close>, is a multiple of \<open>2^(e-52)\<close>; below \<open>2^(-1022)\<close> the doubles are the multiples
  of \<open>2^(-1074)\<close>. A result that rounds to \<open>2^1024\<close> or beyond is an infinity.
\<close>

function binadeUp :: "real \<Rightarrow> int \<Rightarrow> int" where
  "binadeUp a e = (if 2 \<le> a \<and> e < 1023 then binadeUp (a / 2) (e + 1) else e)"
  by pat_completeness auto
termination
  by (relation "measure (\<lambda>(a, e). nat (1023 - e))") auto

function binadeDown :: "real \<Rightarrow> int \<Rightarrow> int" where
  "binadeDown a e = (if a < 1 \<and> - 1022 < e then binadeDown (a * 2) (e - 1) else e)"
  by pat_completeness auto
termination
  by (relation "measure (\<lambda>(a, e). nat (e + 1022))") auto

declare binadeUp.simps [simp del] binadeDown.simps [simp del]

definition binade :: "real \<Rightarrow> int" where
  \<comment> \<open>The exponent \<open>e\<close> of the binade of a positive \<open>a\<close>, kept between \<open>-1022\<close> and \<open>1023\<close>.\<close>
  "binade a = (if 1 \<le> a then binadeUp a 0 else binadeDown a 0)"

definition quantum :: "int \<Rightarrow> real" where
  \<comment> \<open>The distance \<open>2^(e-52)\<close> between neighbouring doubles of the binade \<open>e\<close>.\<close>
  "quantum e = (if 52 \<le> e then 2 ^ nat (e - 52) else 1 / 2 ^ nat (52 - e))"

definition roundHalfEven :: "real \<Rightarrow> int" where
  "roundHalfEven m =
     (let n = \<lfloor>m\<rfloor>; d = m - of_int n
      in if d < 1 / 2 then n else if 1 / 2 < d then n + 1 else if even n then n else n + 1)"

definition roundToDouble :: "real \<Rightarrow> number" where
  "roundToDouble x =
     (if x = 0 then Finite 0
      else let a = \<bar>x\<bar>; q = quantum (binade a); r = of_int (roundHalfEven (a / q)) * q
           in if 2 ^ 1024 \<le> r then (if 0 < x then PosInfinity else NegInfinity)
              else Finite (if 0 < x then r else - r))"

definition nearestDouble :: "real \<Rightarrow> real" where
  \<comment> \<open>The double that a decimal literal within the range of the doubles denotes.\<close>
  "nearestDouble x = (case roundToDouble x of Finite r \<Rightarrow> r | _ \<Rightarrow> x)"

definition js_sub :: "real \<Rightarrow> real \<Rightarrow> number" where
  \<comment> \<open>\<open>a - b\<close> on finite numbers.\<close>
  "js_sub a b = roundToDouble (a - b)"

fun js_abs :: "number \<Rightarrow> number" where
  \<comment> \<open>\<open>Math.abs(x)\<close>\<close>
  "js_abs NaN = NaN"
| "js_abs NegInfinity = PosInfinity"
| "js_abs (Finite x) = Finite \<bar>x\<bar>"
| "js_abs PosInfinity = PosInfinity"

fun js_div :: "number \<Rightarrow> real \<Rightarrow> number" where
  \<comment> \<open>\<open>x / b\<close> for a finite \<open>b\<close>: a zero divisor gives NaN or an infinity.\<close>
  "js_div NaN b = NaN"
| "js_div NegInfinity b = (if b < 0 then PosInfinity else NegInfinity)"
| "js_div (Finite a) b =
     (if b = 0 then (if a = 0 then NaN else if 0 < a then PosInfinity else NegInfinity)
      else roundToDouble (a / b))"
| "js_div PosInfinity b = (if b < 0 then NegInfinity else PosInfinity)"

fun js_gt :: "number \<Rightarrow> real \<Rightarrow> bool" where
  \<comment> \<open>\<open>x > m\<close> for a finite \<open>m\<close>; false when \<open>x\<close> is NaN.\<close>
  "js_gt NaN m = False"
| "js_gt NegInfinity m = False"
| "js_gt (Finite x) m = (m < x)"
| "js_gt PosInfinity m = True"

section \<open>The ingestor's types\<close>

record PriceTick =
  ric :: string
  price :: real
  timestamp :: int
  volume :: "real option"
  bid :: "real option"
  ask :: "real option"

record RawMessage =
  data :: string
  clientId :: string
  receivedAt :: int

datatype verror =
    EmptyMessage
  | InvalidMessageFormat nat string
  | RicRequired
  | RicTooShort string
  | RicTooLong string
  | InvalidRicFormat string
  | FieldRequired string
  | NotANumber string string
  | NotPositive string number
  | SuspiciouslyHighValue string number
  | TimestampRequired
  | TimestampNotANumber string
  | TimestampOutOfRange int int int
  | TimestampTooOld int int int
  | TimestampInFuture int int
  | OptionalNotANumber string string
  | OptionalNegative string number
  | SuspiciouslyHighVolume string number
  | SuspiciouslyHighPrice string number
  | BidAboveAsk real real
  | PriceOutsideSpread real real real
  | SuspiciousPriceChange number real real
  | ZeroVolumeInStrictMode

datatype warning = LargePriceDeviation string number real real

record ValidationResult =
  isValid :: bool
  tick :: "PriceTick option"
  errors :: "verror list"

record ValidationConfig =
  strictMode :: bool
  maxPriceDeviation :: real
  maxTimestampAge :: int

record IngestorConfig =
  validation :: ValidationConfig

definition loadConfiguration :: IngestorConfig where
  \<comment> \<open>The validation part of the configuration when no environment variable is set:
      the maximum deviation is \<open>parseFloat('0.1')\<close>.\<close>
  "loadConfiguration =
     \<lparr>validation = \<lparr>strictMode = False, maxPriceDeviation = nearestDouble 0.1,
                    maxTimestampAge = 300000\<rparr>\<rparr>"

definition strictConfiguration :: IngestorConfig where
  \<comment> \<open>The configuration under \<open>VALIDATION_STRICT_MODE=true\<close>.\<close>
  "strictConfiguration =
     \<lparr>validation = \<lparr>strictMode = True, maxPriceDeviation = nearestDouble 0.1,
                    maxTimestampAge = 300000\<rparr>\<rparr>"

section \<open>MessageValidator\<close>

text \<open>
  The validator's mutable field \<open>lastPrices\<close> is a map from instrument to price; each
  function that pushes onto the array \<open>errors\<close> takes it and returns it extended.
  \<open>Date.now()\<close> is the argument \<open>now\<close>; \<open>console.warn\<close> is the returned list of
  warnings.
\<close>

definition validateRic :: "string \<Rightarrow> verror list \<Rightarrow> string option \<times> verror list" where
  "validateRic ricStr errs =
     (if ricStr = [] \<or> trim ricStr = [] then (None, errs @ [RicRequired])
      else let ric' = trim ricStr in
        if length ric' < 2 then (None, errs @ [RicTooShort ric'])
        else if length ric' > 20 then (None, errs @ [RicTooLong ric'])
        else if \<not> ricPattern ric' then (None, errs @ [InvalidRicFormat ric'])
        else (Some (toUpperCase ric'), errs))"

definition validatePrice ::
  "runtime \<Rightarrow> string \<Rightarrow> string \<Rightarrow> verror list \<Rightarrow> real option \<times> verror list" where
  "validatePrice rt priceStr fieldName errs =
     (if priceStr = [] \<or> trim priceStr = [] then (None, errs @ [FieldRequired fieldName])
      else case parseFloat rt (trim priceStr) of
        NaN \<Rightarrow> (None, errs @ [NotANumber fieldName priceStr])
      | NegInfinity \<Rightarrow> (None, errs @ [NotPositive fieldName NegInfinity])
      | PosInfinity \<Rightarrow> (None, errs @ [SuspiciouslyHighValue fieldName PosInfinity])
      | Finite p \<Rightarrow>
          if p \<le> 0 then (None, errs @ [NotPositive fieldName (Finite p)])
          else if p > 1000000 then
            (None, errs @ [SuspiciouslyHighValue fieldName (Finite p)])
          else (Some p, errs))"

definition minTimestamp :: int where
  \<comment> \<open>\<open>new Date('2020-01-01').getTime()\<close>\<close>
  "minTimestamp = 1577836800000"

definition maxTimestamp :: int where
  \<comment> \<open>\<open>new Date('2030-01-01').getTime()\<close>\<close>
  "maxTimestamp = 1893456000000"

definition validateTimestamp ::
  "IngestorConfig \<Rightarrow> int \<Rightarrow> string \<Rightarrow> verror list \<Rightarrow> int option \<times> verror list" where
  "validateTimestamp cfg now timestampStr errs =
     (if timestampStr = [] \<or> trim timestampStr = [] then (None, errs @ [TimestampRequired])
      else case parseInt (trim timestampStr) of
        None \<Rightarrow> (None, errs @ [TimestampNotANumber timestampStr])
      | Some ts \<Rightarrow>
          if ts < minTimestamp \<or> ts > maxTimestamp then
            (None, errs @ [TimestampOutOfRange ts minTimestamp maxTimestamp])
          else let age = now - ts in
            if age > maxTimestampAge (validation cfg) then
              (None, errs @ [TimestampTooOld ts age (maxTimestampAge (validation cfg))])
            else if ts > now + 60000 then
              (None, errs @ [TimestampInFuture ts now])
            else (Some ts, errs))"

definition validateOptionalNumber ::
  "runtime \<Rightarrow> string \<Rightarrow> string \<Rightarrow> verror list \<Rightarrow> real option \<times> verror list" where
  "validateOptionalNumber rt valueStr fieldName errs =
     (if valueStr = [] \<or> trim valueStr = [] then (None, errs)
      else case parseFloat rt (trim valueStr) of
        NaN \<Rightarrow> (None, errs @ [OptionalNotANumber fieldName valueStr])
      | NegInfinity \<Rightarrow> (None, errs @ [OptionalNegative fieldName NegInfinity])
      | PosInfinity \<Rightarrow>
          if fieldName = ''volume'' then
            (None, errs @ [SuspiciouslyHighVolume fieldName PosInfinity])
          else if fieldName = ''bid'' \<or> fieldName = ''ask'' then
            (None, errs @ [SuspiciouslyHighPrice fieldName PosInfinity])
          else (None, errs)
      | Finite v \<Rightarrow>
          if v < 0 then (None, errs @ [OptionalNegative fieldName (Finite v)])
          else if fieldName = ''volume'' \<and> v > 1000000000 then
            (None, errs @ [SuspiciouslyHighVolume fieldName (Finite v)])
          else if (fieldName = ''bid'' \<or> fieldName = ''ask'') \<and> v > 1000000 then
            (None, errs @ [SuspiciouslyHighPrice fieldName (Finite v)])
          else (Some v, errs))"

definition priceDeviation :: "real \<Rightarrow> real \<Rightarrow> number" where
  \<comment> \<open>\<open>Math.abs(tick.price - lastPrice) / lastPrice\<close>: the difference and the quotient
      are each rounded to a double.\<close>
  "priceDeviation price' lastPrice = js_div (js_abs (js_sub price' lastPrice)) lastPrice"

definition validateBusinessRules ::
  "IngestorConfig \<Rightarrow> (string \<rightharpoonup> real) \<Rightarrow> PriceTick \<Rightarrow> verror list
     \<Rightarrow> verror list \<times> warning list" where
  "validateBusinessRules cfg lastPrices t errs =
     (let e1 = (case (bid t, ask t) of
                  (Some b, Some a) \<Rightarrow> if b > a then errs @ [BidAboveAsk b a] else errs
                | _ \<Rightarrow> errs);
          e2 = (case (bid t, ask t) of
                  (Some b, Some a) \<Rightarrow>
                    if price t < b \<or> price t > a
                    then e1 @ [PriceOutsideSpread (price t) b a] else e1
                | _ \<Rightarrow> e1);
          (e3, warnings) =
            (case lastPrices (ric t) of
               None \<Rightarrow> (e2, [])
             | Some lastPrice \<Rightarrow>
                 let deviation = priceDeviation (price t) lastPrice in
                 if js_gt deviation (maxPriceDeviation (validation cfg)) then
                   (if strictMode (validation cfg)
                    then (e2 @ [SuspiciousPriceChange deviation lastPrice (price t)], [])
                    else (e2, [LargePriceDeviation (ric t) deviation lastPrice (price t)]))
                 else (e2, []));
          e4 = (if volume t = Some 0 \<and> strictMode (validation cfg)
                then e3 @ [ZeroVolumeInStrictMode] else e3)
      in (e4, warnings))"

definition validateMessage ::
  "runtime \<Rightarrow> IngestorConfig \<Rightarrow> int \<Rightarrow> (string \<rightharpoonup> real) \<Rightarrow> string
     \<Rightarrow> ValidationResult \<times> (string \<rightharpoonup> real) \<times> warning list" where
  "validateMessage rt cfg now lastPrices rawMessage =
     (let cleanMessage = trim (removeNewlines rawMessage) in
      if cleanMessage = [] then
        (\<lparr>isValid = False, tick = None, errors = [EmptyMessage]\<rparr>, lastPrices, [])
      else let parts = splitStr cleanMessage CHR ''|'' in
        if length parts \<noteq> 6 then
          (\<lparr>isValid = False, tick = None,
            errors = [InvalidMessageFormat (length parts) cleanMessage]\<rparr>, lastPrices, [])
        else
          let (ric', e1) = validateRic (parts ! 0) [];
              (price', e2) = validatePrice rt (parts ! 1) ''price'' e1;
              (timestamp', e3) = validateTimestamp cfg now (parts ! 2) e2;
              (volume', e4) = validateOptionalNumber rt (parts ! 3) ''volume'' e3;
              (bid', e5) = validateOptionalNumber rt (parts ! 4) ''bid'' e4;
              (ask', e6) = validateOptionalNumber rt (parts ! 5) ''ask'' e5
          in if e6 \<noteq> [] then
               (\<lparr>isValid = False, tick = None, errors = e6\<rparr>, lastPrices, [])
             else
               let t = \<lparr>ric = the ric', price = the price', timestamp = the timestamp',
                        volume = volume', bid = bid', ask = ask'\<rparr>;
                   (e7, warnings) = validateBusinessRules cfg lastPrices t e6
               in (\<lparr>isValid = (e7 = []),
                    tick = (if e7 = [] then Some t else None),
                    errors = e7\<rparr>,
                   (if e7 = [] then lastPrices(PriceTick.ric t \<mapsto> PriceTick.price t)
                    else lastPrices),
                   warnings))"

section \<open>IngestorService: enrichment and sequencing\<close>

record EnrichedTick = PriceTick +
  receivedAt :: int
  clientId :: string
  sequenceId :: string
  latencyMs :: "int option"
  validationPassed :: bool
  validationErrors :: "verror list"

record IngestorService =
  sequenceCounter :: nat

definition enrichTick ::
  "int \<Rightarrow> IngestorService \<Rightarrow> PriceTick \<Rightarrow> RawMessage \<Rightarrow> EnrichedTick \<times> IngestorService" where
  \<comment> \<open>\<open>now\<close> is the reading of \<open>Date.now()\<close> taken for the sequence identifier.\<close>
  "enrichTick now svc t rawMessage =
     (let svc' = svc\<lparr>sequenceCounter := sequenceCounter svc + 1\<rparr>;
          enrichedTick =
            \<lparr>ric = ric t, price = price t, timestamp = timestamp t,
             volume = volume t, bid = bid t, ask = ask t,
             receivedAt = RawMessage.receivedAt rawMessage,
             clientId = RawMessage.clientId rawMessage,
             sequenceId = intToString now @ ''-'' @ intToString (int (sequenceCounter svc')),
             latencyMs = None,
             validationPassed = True,
             validationErrors = []\<rparr>
      in (if timestamp t \<noteq> 0
          then enrichedTick\<lparr>latencyMs := Some (RawMessage.receivedAt rawMessage - timestamp t)\<rparr>
          else enrichedTick,
          svc'))"

fun enrichTicks ::
  "IngestorService \<Rightarrow> (int \<times> PriceTick \<times> RawMessage) list \<Rightarrow> EnrichedTick list \<times> IngestorService" where
  \<comment> \<open>The calls of \<open>enrichTick\<close> for a sequence of accepted ticks, each with its clock reading.\<close>
  "enrichTicks svc [] = ([], svc)"
| "enrichTicks svc ((now, t, rawMessage) # rest) =
     (let (e, svc') = enrichTick now svc t rawMessage;
          (es, svc'') = enrichTicks svc' rest
      in (e # es, svc''))"

fun stringLess :: "string \<Rightarrow> string \<Rightarrow> bool" where
  \<comment> \<open>The order \<open><\<close> of the language on strings: by code unit, a proper prefix first.\<close>
  "stringLess [] [] = False"
| "stringLess [] (y # ys) = True"
| "stringLess (x # xs) [] = False"
| "stringLess (x # xs) (y # ys) =
     ((of_char x :: nat) < of_char y \<or> (x = y \<and> stringLess xs ys))"

section \<open>TcpServer: framing a connection's data\<close>

text \<open>
  A chunk that the socket delivers is a \<open>Buffer\<close>, a list of bytes. The handler of a
  connection's \<open>data\<close> event decodes the chunk with \<open>data.toString()\<close>, appends the text
  to the buffer of the connection and hands every complete line, trimmed, to
  \<open>handleMessage\<close>, unless nothing is left of it. The second component of the results
  below lists the texts handed to \<open>handleMessage\<close>, in order.

  Decoding can yield any character, so the text of a connection is the list of its
  UTF-16 code units, as the language has it; a text whose code units are all below 256
  is, unit by unit, a string of the sections above. \<open>Buffer.prototype.toString\<close> decodes
  UTF-8: a well-formed sequence of bytes gives its character (two code units beyond
  \<open>U+FFFF\<close>), and every ill-formed or unfinished sequence gives the replacement
  character \<open>U+FFFD\<close>. The socket has no encoding set and the handler keeps no decoder
  between chunks, so each chunk is decoded by itself.
\<close>

definition codeUnits :: "nat \<Rightarrow> 16 word list" where
  \<comment> \<open>The code units of a code point.\<close>
  "codeUnits codePoint =
     (if codePoint < 0x10000 then [of_nat codePoint]
      else [of_nat (0xD800 + (codePoint - 0x10000) div 0x400),
            of_nat (0xDC00 + (codePoint - 0x10000) mod 0x400)])"

fun utf8Decode :: "nat \<Rightarrow> nat \<Rightarrow> nat \<Rightarrow> nat \<Rightarrow> 8 word list \<Rightarrow> 16 word list" where
  \<comment> \<open>\<open>needed\<close> counts the continuation bytes that the character begun still lacks, the
      next of them between \<open>lower\<close> and \<open>upper\<close>; \<open>codePoint\<close> holds the bits read so far.\<close>
  "utf8Decode codePoint needed lower upper [] = (if needed = 0 then [] else [0xFFFD])"
| "utf8Decode codePoint needed lower upper (byte # bytes) =
     (let b = unat byte in
      if needed \<noteq> 0 \<and> lower \<le> b \<and> b \<le> upper then
        (if needed = 1
         then codeUnits (codePoint * 0x40 + b mod 0x40) @ utf8Decode 0 0 0x80 0xBF bytes
         else utf8Decode (codePoint * 0x40 + b mod 0x40) (needed - 1) 0x80 0xBF bytes)
      else (if needed \<noteq> 0 then [0xFFFD] else []) @
           (if b \<le> 0x7F then of_nat b # utf8Decode 0 0 0x80 0xBF bytes
            else if 0xC2 \<le> b \<and> b \<le> 0xDF then utf8Decode (b mod 0x20) 1 0x80 0xBF bytes
            else if 0xE0 \<le> b \<and> b \<le> 0xEF then
              utf8Decode (b mod 0x10) 2 (if b = 0xE0 then 0xA0 else 0x80)
                (if b = 0xED then 0x9F else 0xBF) bytes
            else if 0xF0 \<le> b \<and> b \<le> 0xF4 then
              utf8Decode (b mod 8) 3 (if b = 0xF0 then 0x90 else 0x80)
                (if b = 0xF4 then 0x8F else 0xBF) bytes
            else 0xFFFD # utf8Decode 0 0 0x80 0xBF bytes))"

definition bufferToString :: "8 word list \<Rightarrow> 16 word list" where
  \<comment> \<open>\<open>data.toString()\<close>\<close>
  "bufferToString bytes = utf8Decode 0 0 0x80 0xBF bytes"

definition isWhiteSpaceUnit :: "16 word \<Rightarrow> bool" where
  \<comment> \<open>The white space and line terminators of the language, which \<open>trim\<close> strips.\<close>
  "isWhiteSpaceUnit u \<longleftrightarrow>
     u \<in> set [0x09, 0x0A, 0x0B, 0x0C, 0x0D, 0x20, 0xA0, 0x1680, 0x2000, 0x2001, 0x2002,
              0x2003, 0x2004, 0x2005, 0x2006, 0x2007, 0x2008, 0x2009, 0x200A, 0x2028,
              0x2029, 0x202F, 0x205F, 0x3000, 0xFEFF]"

definition trimUnits :: "16 word list \<Rightarrow> 16 word list" where
  \<comment> \<open>\<open>trim\<close> on a text given by its code units.\<close>
  "trimUnits s = rev (dropWhile isWhiteSpaceUnit (rev (dropWhile isWhiteSpaceUnit s)))"

lemma indexOf_less: "indexOf s c = Some i \<Longrightarrow> i < length s"
  by (induction s arbitrary: i) (auto split: if_splits)

function extractMessages ::
  "16 word list \<Rightarrow> 16 word list list \<Rightarrow> 16 word list \<times> 16 word list list" where
  "extractMessages buffer handled =
     (case indexOf buffer 0x0A of
        None \<Rightarrow> (buffer, handled)
      | Some newlineIndex \<Rightarrow>
          let message = take newlineIndex buffer;
              buffer' = drop (newlineIndex + 1) buffer
          in extractMessages buffer'
               (if trimUnits message \<noteq> [] then handled @ [trimUnits message] else handled))"
  by pat_completeness auto
termination
  by (relation "measure (\<lambda>(buffer, handled). length buffer)") (auto dest: indexOf_less)

declare extractMessages.simps [simp del]

record Connection =
  registered :: bool
  buffer :: "16 word list"

definition onData :: "Connection \<Rightarrow> 8 word list \<Rightarrow> Connection \<times> 16 word list list" where
  \<comment> \<open>\<open>registered\<close>: the client is still in the table of clients.\<close>
  "onData c chunk =
     (if \<not> registered c then (c, [])
      else let (buffer', handled) = extractMessages (buffer c @ bufferToString chunk) []
           in (c\<lparr>buffer := buffer'\<rparr>, handled))"

fun onDataAll :: "Connection \<Rightarrow> 8 word list list \<Rightarrow> Connection \<times> 16 word list list" where
  \<comment> \<open>One \<open>data\<close> event per chunk, in order.\<close>
  "onDataAll c [] = (c, [])"
| "onDataAll c (chunk # chunks) =
     (let (c', handled) = onData c chunk;
          (c'', handled') = onDataAll c' chunks
      in (c'', handled @ handled'))"

section \<open>Tick generator: TcpSender\<close>

text \<open>
  A socket is the list of the chunks written to it, in order. \<open>socket.write\<close> with a
  string queues the chunk and returns; a failure of the connection reaches the sender
  later, through the handlers of \<open>error\<close> and \<open>close\<close>, which clear \<open>isConnected\<close>.
  The \<open>catch\<close> around the write in \<open>sendTick\<close> has therefore no run here.
\<close>

definition optionalToString :: "runtime \<Rightarrow> real option \<Rightarrow> string" where
  \<comment> \<open>\<open>x?.toString() || ''\<close>\<close>
  "optionalToString rt x =
     (case x of
        None \<Rightarrow> []
      | Some v \<Rightarrow> if numberToString rt v = [] then [] else numberToString rt v)"

definition formatTick :: "runtime \<Rightarrow> PriceTick \<Rightarrow> string" where
  "formatTick rt t =
     joinStr [ric t, numberToString rt (price t), intToString (timestamp t),
              optionalToString rt (volume t), optionalToString rt (bid t),
              optionalToString rt (ask t)] CHR ''|''"

record TcpSender =
  socket :: "string list option"
  reconnectAttempts :: nat
  isConnected :: bool
  messageQueue :: "string list"

definition sendTick :: "runtime \<Rightarrow> TcpSender \<Rightarrow> PriceTick \<Rightarrow> TcpSender" where
  "sendTick rt s t =
     (let message = formatTick rt t in
      case (isConnected s, socket s) of
        (True, Some written) \<Rightarrow> s\<lparr>socket := Some (written @ [message @ [CHR 0x0A]])\<rparr>
      | _ \<Rightarrow> s\<lparr>messageQueue := messageQueue s @ [message]\<rparr>)"

fun flushLoop :: "bool list \<Rightarrow> TcpSender \<Rightarrow> string list \<Rightarrow> TcpSender" where
  \<comment> \<open>The \<open>for\<close> loop over the queue. \<open>drops\<close> tells, for each iteration in turn, whether
      the connection is lost (\<open>isConnected\<close> cleared) right after it.\<close>
  "flushLoop drops s [] = s"
| "flushLoop drops s (message # rest) =
     (let s1 = (case (socket s, isConnected s) of
                  (Some written, True) \<Rightarrow> s\<lparr>socket := Some (written @ [message @ [CHR 0x0A]])\<rparr>
                | _ \<Rightarrow> s);
          s2 = (case drops of True # _ \<Rightarrow> s1\<lparr>isConnected := False\<rparr> | _ \<Rightarrow> s1)
      in flushLoop (tl drops) s2 rest)"

definition flushMessageQueue :: "bool list \<Rightarrow> TcpSender \<Rightarrow> TcpSender" where
  "flushMessageQueue drops s =
     (if messageQueue s = [] then s
      else (flushLoop drops s (messageQueue s))\<lparr>messageQueue := []\<rparr>)"

definition connect :: "TcpSender \<Rightarrow> TcpSender" where
  \<comment> \<open>\<open>connect()\<close> replaces the socket by a new one, to which nothing is written yet.\<close>
  "connect s = s\<lparr>socket := Some []\<rparr>"

definition onConnect :: "bool list \<Rightarrow> TcpSender \<Rightarrow> TcpSender" where
  \<comment> \<open>The handler of the socket's \<open>connect\<close> event.\<close>
  "onConnect drops s = flushMessageQueue drops (s\<lparr>isConnected := True, reconnectAttempts := 0\<rparr>)"

section \<open>Ticks that pass the validator's checks\<close>

text \<open>
  The checks of the validator, stated on a tick instead of on the fields of a line:
  the shape of the instrument, the ranges of the numbers, the window of the timestamp
  around the clock, the spread, and in strict mode the zero volume and the deviation
  from the last price. A runtime prints a number plainly when the string is not empty,
  has no \<open>|\<close> and no white space, and \<open>parseFloat\<close> reads the number back from it.
\<close>

definition validRic :: "string \<Rightarrow> bool" where
  "validRic r \<longleftrightarrow> 2 \<le> length r \<and> length r \<le> 20 \<and> ricPattern r"

definition printsPlainly :: "runtime \<Rightarrow> real \<Rightarrow> bool" where
  "printsPlainly rt x \<longleftrightarrow>
     numberToString rt x \<noteq> [] \<and>
     list_all (\<lambda>c. c \<noteq> CHR ''|'' \<and> \<not> isWhiteSpace c) (numberToString rt x) \<and>
     parseFloat rt (numberToString rt x) = Finite x"

definition printsPlainlyOpt :: "runtime \<Rightarrow> real option \<Rightarrow> bool" where
  "printsPlainlyOpt rt x = (case x of None \<Rightarrow> True | Some v \<Rightarrow> printsPlainly rt v)"

definition withinOpt :: "real \<Rightarrow> real option \<Rightarrow> bool" where
  "withinOpt limit x = (case x of None \<Rightarrow> True | Some v \<Rightarrow> 0 \<le> v \<and> v \<le> limit)"

definition passesChecks :: "IngestorConfig \<Rightarrow> int \<Rightarrow> (string \<rightharpoonup> real) \<Rightarrow> PriceTick \<Rightarrow> bool" where
  "passesChecks cfg now lastPrices t \<longleftrightarrow>
     validRic (ric t) \<and>
     0 < price t \<and> price t \<le> 1000000 \<and>
     minTimestamp \<le> timestamp t \<and> timestamp t \<le> maxTimestamp \<and>
     now - timestamp t \<le> maxTimestampAge (validation cfg) \<and> timestamp t \<le> now + 60000 \<and>
     withinOpt 1000000000 (volume t) \<and> withinOpt 1000000 (bid t) \<and> withinOpt 1000000 (ask t) \<and>
     (case (bid t, ask t) of
        (Some b, Some a) \<Rightarrow> b \<le> a \<and> b \<le> price t \<and> price t \<le> a
      | _ \<Rightarrow> True) \<and>
     (if strictMode (validation cfg) then
        volume t \<noteq> Some 0 \<and>
        (case lastPrices (toUpperCase (ric t)) of
           None \<Rightarrow> True
         | Some lastPrice \<Rightarrow>
             \<not> js_gt (priceDeviation (price t) lastPrice)
                       (maxPriceDeviation (validation cfg)))
      else True)"

section \<open>A runtime for the examples\<close>

text \<open>
  The examples need a concrete runtime. This one reads plain decimal literals (an
  optional sign, digits, an optional fraction; anything after them is ignored, as
  \<open>parseFloat\<close> does) and prints a number with its decimal digits. It agrees with the
  ECMAScript functions on the short decimal numbers the examples use. It takes a
  literal as the real it denotes; the second runtime below rounds that real to the
  nearest double, as \<open>parseFloat\<close> does for a literal such as \<open>7.843\<close> that denotes no
  double.
\<close>

definition decimalParseFloat :: "string \<Rightarrow> number" where
  "decimalParseFloat s =
     (let S = dropWhile isWhiteSpace s;
          negative = (case S of c # _ \<Rightarrow> c = CHR ''-'' | [] \<Rightarrow> False);
          S' = (case S of c # cs \<Rightarrow> if c = CHR ''+'' \<or> c = CHR ''-'' then cs else S | [] \<Rightarrow> []);
          I = takeWhile isDigit S';
          F = (case dropWhile isDigit S' of
                 c # cs \<Rightarrow> if c = CHR ''.'' then takeWhile isDigit cs else []
               | [] \<Rightarrow> [])
      in if I = [] \<and> F = [] then NaN
         else Finite ((if negative then - 1 else 1) *
                      (real (digitsValue I) + real (digitsValue F) / 10 ^ length F)))"

fun fractionDigits :: "nat \<Rightarrow> real \<Rightarrow> string" where
  "fractionDigits 0 x = []"
| "fractionDigits (Suc k) x =
     (if x = 0 then []
      else digitChar (nat \<lfloor>x * 10\<rfloor>) # fractionDigits k (x * 10 - of_int \<lfloor>x * 10\<rfloor>))"

definition decimalToString :: "real \<Rightarrow> string" where
  "decimalToString x =
     (let a = \<bar>x\<bar>; i = \<lfloor>a\<rfloor>; f = a - of_int i
      in (if x < 0 then ''-'' else []) @ digits (nat i) @
         (if f = 0 then [] else CHR ''.'' # fractionDigits 20 f))"

definition sampleRuntime :: runtime where
  "sampleRuntime = \<lparr>parseFloat = decimalParseFloat, numberToString = decimalToString\<rparr>"

definition roundedParseFloat :: "string \<Rightarrow> number" where
  "roundedParseFloat s = (case decimalParseFloat s of Finite x \<Rightarrow> roundToDouble x | n \<Rightarrow> n)"

definition doubleRuntime :: runtime where
  "doubleRuntime = \<lparr>parseFloat = roundedParseFloat, numberToString = decimalToString\<rparr>"

section \<open>Properties of the validator\<close>

subsection \<open>Evaluating the examples\<close>

lemma fractionDigits_numeral:
  "fractionDigits (numeral v) x =
     (if x = 0 then []
      else digitChar (nat \<lfloor>x * 10\<rfloor>) #
           fractionDigits (pred_numeral v) (x * 10 - of_int \<lfloor>x * 10\<rfloor>))"
  by (simp add: numeral_eq_Suc)

lemmas eval_strings =
  trim_def isWhiteSpace_def isDigit_def digitsValue_def digitValue_def digitChar_def
  toUpperCase_def toUpperChar_def ricPattern_def ricChar_def

lemmas eval_numbers =
  parseInt_def intToString_def digits.simps decimalParseFloat_def decimalToString_def
  fractionDigits_numeral sampleRuntime_def

lemmas eval_fields =
  validateRic_def validatePrice_def validateTimestamp_def
  validateOptionalNumber_def minTimestamp_def maxTimestamp_def
  loadConfiguration_def

text \<open>
  A double is named by its binade and its significand; the lemmas that follow give
  the doubles nearest to the numbers of the examples.
\<close>

lemma roundToDouble_positive:
  assumes "0 < x" and "binade x = e" and "roundHalfEven (x / quantum e) = n"
    and "r = of_int n * quantum e" and "r < 2 ^ 1024"
  shows "roundToDouble x = Finite r"
  using assms by (simp add: roundToDouble_def Let_def)

lemma double_tenth: "roundToDouble (1 / 10) = Finite (3602879701896397 / 36028797018963968)"
proof (rule roundToDouble_positive [where e = "- 4" and n = 7205759403792794])
  show "binade (1 / 10) = - 4"
    by (simp add: binade_def binadeUp.simps binadeDown.simps)
  show "roundHalfEven (1 / 10 / quantum (- 4)) = 7205759403792794"
    by (simp add: quantum_def roundHalfEven_def Let_def)
  show "3602879701896397 / 36028797018963968 = real_of_int 7205759403792794 * quantum (- 4)"
    by (simp add: quantum_def)
qed simp_all

lemma double_15: "roundToDouble 15 = Finite 15"
proof (rule roundToDouble_positive [where e = 3 and n = 8444249301319680])
  show "binade 15 = 3"
    by (simp add: binade_def binadeUp.simps binadeDown.simps)
  show "roundHalfEven (15 / quantum 3) = 8444249301319680"
    by (simp add: quantum_def roundHalfEven_def Let_def)
  show "15 = real_of_int 8444249301319680 * quantum 3"
    by (simp add: quantum_def)
qed simp_all

lemma double_15_percent: "roundToDouble (3 / 20) = Finite (5404319552844595 / 36028797018963968)"
proof (rule roundToDouble_positive [where e = "- 3" and n = 5404319552844595])
  show "binade (3 / 20) = - 3"
    by (simp add: binade_def binadeUp.simps binadeDown.simps)
  show "roundHalfEven (3 / 20 / quantum (- 3)) = 5404319552844595"
    by (simp add: quantum_def roundHalfEven_def Let_def)
  show "5404319552844595 / 36028797018963968 = real_of_int 5404319552844595 * quantum (- 3)"
    by (simp add: quantum_def)
qed simp_all

lemma double_7_13: "roundToDouble (713 / 100) = Finite (8027666335787909 / 1125899906842624)"
proof (rule roundToDouble_positive [where e = 2 and n = 8027666335787909])
  show "binade (713 / 100) = 2"
    by (simp add: binade_def binadeUp.simps binadeDown.simps)
  show "roundHalfEven (713 / 100 / quantum 2) = 8027666335787909"
    by (simp add: quantum_def roundHalfEven_def Let_def)
  show "8027666335787909 / 1125899906842624 = real_of_int 8027666335787909 * quantum 2"
    by (simp add: quantum_def)
qed simp_all

lemma double_7_843: "roundToDouble (7843 / 1000) = Finite (2207608242341675 / 281474976710656)"
proof (rule roundToDouble_positive [where e = 2 and n = 8830432969366700])
  show "binade (7843 / 1000) = 2"
    by (simp add: binade_def binadeUp.simps binadeDown.simps)
  show "roundHalfEven (7843 / 1000 / quantum 2) = 8830432969366700"
    by (simp add: quantum_def roundHalfEven_def Let_def)
  show "2207608242341675 / 281474976710656 = real_of_int 8830432969366700 * quantum 2"
    by (simp add: quantum_def)
qed simp_all

lemma double_difference: "roundToDouble (802766633578791 / 1125899906842624) = Finite (802766633578791 / 1125899906842624)"
proof (rule roundToDouble_positive [where e = "- 1" and n = 6422133068630328])
  show "binade (802766633578791 / 1125899906842624) = - 1"
    by (simp add: binade_def binadeUp.simps binadeDown.simps)
  show "roundHalfEven (802766633578791 / 1125899906842624 / quantum (- 1)) = 6422133068630328"
    by (simp add: quantum_def roundHalfEven_def Let_def)
  show "802766633578791 / 1125899906842624 = real_of_int 6422133068630328 * quantum (- 1)"
    by (simp add: quantum_def)
qed simp_all

lemma double_quotient: "roundToDouble (802766633578791 / 8027666335787909) = Finite (3602879701896397 / 36028797018963968)"
proof (rule roundToDouble_positive [where e = "- 4" and n = 7205759403792794])
  show "binade (802766633578791 / 8027666335787909) = - 4"
    by (simp add: binade_def binadeUp.simps binadeDown.simps)
  show "roundHalfEven (802766633578791 / 8027666335787909 / quantum (- 4)) = 7205759403792794"
    by (simp add: quantum_def roundHalfEven_def Let_def)
  show "3602879701896397 / 36028797018963968 = real_of_int 7205759403792794 * quantum (- 4)"
    by (simp add: quantum_def)
qed simp_all

lemma double_quarter: "roundToDouble (1 / 4) = Finite (1 / 4)"
proof (rule roundToDouble_positive [where e = "- 2" and n = 4503599627370496])
  show "binade (1 / 4) = - 2"
    by (simp add: binade_def binadeUp.simps binadeDown.simps)
  show "roundHalfEven (1 / 4 / quantum (- 2)) = 4503599627370496"
    by (simp add: quantum_def roundHalfEven_def Let_def)
  show "1 / 4 = real_of_int 4503599627370496 * quantum (- 2)"
    by (simp add: quantum_def)
qed simp_all

lemma double_small_deviation: "roundToDouble (1 / 602) = Finite (3830304002016103 / 2305843009213693952)"
proof (rule roundToDouble_positive [where e = "- 10" and n = 7660608004032206])
  show "binade (1 / 602) = - 10"
    by (simp add: binade_def binadeUp.simps binadeDown.simps)
  show "roundHalfEven (1 / 602 / quantum (- 10)) = 7660608004032206"
    by (simp add: quantum_def roundHalfEven_def Let_def)
  show "3830304002016103 / 2305843009213693952 = real_of_int 7660608004032206 * quantum (- 10)"
    by (simp add: quantum_def)
qed simp_all

lemma double_150_5: "roundToDouble (301 / 2) = Finite (301 / 2)"
proof (rule roundToDouble_positive [where e = 7 and n = 5295247999369216])
  show "binade (301 / 2) = 7"
    by (simp add: binade_def binadeUp.simps binadeDown.simps)
  show "roundHalfEven (301 / 2 / quantum 7) = 5295247999369216"
    by (simp add: quantum_def roundHalfEven_def Let_def)
  show "301 / 2 = real_of_int 5295247999369216 * quantum 7"
    by (simp add: quantum_def)
qed simp_all

lemma double_150_75: "roundToDouble (603 / 4) = Finite (603 / 4)"
proof (rule roundToDouble_positive [where e = 7 and n = 5304044092391424])
  show "binade (603 / 4) = 7"
    by (simp add: binade_def binadeUp.simps binadeDown.simps)
  show "roundHalfEven (603 / 4 / quantum 7) = 5304044092391424"
    by (simp add: quantum_def roundHalfEven_def Let_def)
  show "603 / 4 = real_of_int 5304044092391424 * quantum 7"
    by (simp add: quantum_def)
qed simp_all

lemma double_million: "roundToDouble 1000000 = Finite 1000000"
proof (rule roundToDouble_positive [where e = 19 and n = 8589934592000000])
  show "binade 1000000 = 19"
    by (simp add: binade_def binadeUp.simps binadeDown.simps)
  show "roundHalfEven (1000000 / quantum 19) = 8589934592000000"
    by (simp add: quantum_def roundHalfEven_def Let_def)
  show "1000000 = real_of_int 8589934592000000 * quantum 19"
    by (simp add: quantum_def)
qed simp_all

lemmas eval_doubles =
  nearestDouble_def priceDeviation_def js_sub_def roundedParseFloat_def doubleRuntime_def
  double_tenth double_15 double_15_percent double_7_13 double_7_843 double_difference
  double_quotient double_quarter double_small_deviation double_150_5 double_150_75
  double_million

text \<open>
  Once the line is cleaned and split into six fields, the result of \<open>validateMessage\<close>
  is determined by the six field validations and the business rules.
\<close>

lemma validateMessage_fields:
  assumes "trim (removeNewlines rawMessage) = cleanMessage" and "cleanMessage \<noteq> []"
    and "splitStr cleanMessage CHR ''|'' = [f0, f1, f2, f3, f4, f5]"
    and "validateRic f0 [] = (r, e1)"
    and "validatePrice rt f1 ''price'' e1 = (p, e2)"
    and "validateTimestamp cfg now f2 e2 = (ts, e3)"
    and "validateOptionalNumber rt f3 ''volume'' e3 = (v, e4)"
    and "validateOptionalNumber rt f4 ''bid'' e4 = (b, e5)"
    and "validateOptionalNumber rt f5 ''ask'' e5 = (a, e6)"
  shows "validateMessage rt cfg now lastPrices rawMessage =
     (if e6 \<noteq> [] then (\<lparr>isValid = False, tick = None, errors = e6\<rparr>, lastPrices, [])
      else let t = \<lparr>ric = the r, price = the p, timestamp = the ts,
                    volume = v, bid = b, ask = a\<rparr>;
               (e7, warnings) = validateBusinessRules cfg lastPrices t e6
           in (\<lparr>isValid = (e7 = []), tick = (if e7 = [] then Some t else None), errors = e7\<rparr>,
               (if e7 = [] then lastPrices(ric t \<mapsto> price t) else lastPrices),
               warnings))"
  unfolding validateMessage_def by (simp add: assms Let_def)

lemma example_accepted:
  "validateMessage sampleRuntime loadConfiguration 1705323000015 Map.empty
     ''AAPL.O|150.60|1705323000000|1000000|150.10|150.75'' =
   (\<lparr>isValid = True,
     tick = Some \<lparr>ric = ''AAPL.O'', price = 150.6, timestamp = 1705323000000,
                  volume = Some 1000000, bid = Some 150.1, ask = Some 150.75\<rparr>,
     errors = []\<rparr>,
    [''AAPL.O'' \<mapsto> 150.6], [])"
proof -
  let ?line = "''AAPL.O|150.60|1705323000000|1000000|150.10|150.75''"
  have c: "trim (removeNewlines ?line) = ?line" "?line \<noteq> []"
    by (simp_all add: eval_strings)
  have s: "splitStr ?line CHR ''|'' =
             [''AAPL.O'', ''150.60'', ''1705323000000'', ''1000000'', ''150.10'', ''150.75'']"
    by simp
  have f: "validateRic ''AAPL.O'' [] = (Some ''AAPL.O'', [])"
    "validatePrice sampleRuntime ''150.60'' ''price'' [] = (Some 150.6, [])"
    "validateTimestamp loadConfiguration 1705323000015 ''1705323000000'' [] =
       (Some 1705323000000, [])"
    "validateOptionalNumber sampleRuntime ''1000000'' ''volume'' [] = (Some 1000000, [])"
    "validateOptionalNumber sampleRuntime ''150.10'' ''bid'' [] = (Some 150.1, [])"
    "validateOptionalNumber sampleRuntime ''150.75'' ''ask'' [] = (Some 150.75, [])"
    by (simp_all add: eval_fields eval_strings eval_numbers)
  show ?thesis
    by (simp add: validateMessage_fields [OF c s f] validateBusinessRules_def)
qed

lemma example_bad_price:
  "validateMessage sampleRuntime loadConfiguration 1705323000015 [''AAPL.O'' \<mapsto> 150.6]
     ''AAPL.O|abc|1705323000000|||'' =
   (\<lparr>isValid = False, tick = None, errors = [NotANumber ''price'' ''abc'']\<rparr>,
    [''AAPL.O'' \<mapsto> 150.6], [])"
proof -
  let ?line = "''AAPL.O|abc|1705323000000|||''"
  have c: "trim (removeNewlines ?line) = ?line" "?line \<noteq> []"
    by (simp_all add: eval_strings)
  have s: "splitStr ?line CHR ''|'' = [''AAPL.O'', ''abc'', ''1705323000000'', [], [], []]"
    by simp
  have f: "validateRic ''AAPL.O'' [] = (Some ''AAPL.O'', [])"
    "validatePrice sampleRuntime ''abc'' ''price'' [] = (None, [NotANumber ''price'' ''abc''])"
    "validateTimestamp loadConfiguration 1705323000015 ''1705323000000''
       [NotANumber ''price'' ''abc''] = (Some 1705323000000, [NotANumber ''price'' ''abc''])"
    "validateOptionalNumber sampleRuntime [] ''volume'' [NotANumber ''price'' ''abc''] =
       (None, [NotANumber ''price'' ''abc''])"
    "validateOptionalNumber sampleRuntime [] ''bid'' [NotANumber ''price'' ''abc''] =
       (None, [NotANumber ''price'' ''abc''])"
    "validateOptionalNumber sampleRuntime [] ''ask'' [NotANumber ''price'' ''abc''] =
       (None, [NotANumber ''price'' ''abc''])"
    by (simp_all add: eval_fields eval_strings eval_numbers)
  show ?thesis
    by (simp add: validateMessage_fields [OF c s f])
qed

lemma example_eur:
  assumes "maxTimestampAge (validation cfg) = 300000"
  shows "validateMessage sampleRuntime cfg 1705323000015 lp ''EUR=|115|1705323000000|||'' =
   (case validateBusinessRules cfg lp
           \<lparr>ric = ''EUR='', price = 115, timestamp = 1705323000000,
            volume = None, bid = None, ask = None\<rparr> [] of
      (e7, w) \<Rightarrow>
        (\<lparr>isValid = (e7 = []),
          tick = (if e7 = [] then Some \<lparr>ric = ''EUR='', price = 115, timestamp = 1705323000000,
            volume = None, bid = None, ask = None\<rparr> else None), errors = e7\<rparr>,
         (if e7 = [] then lp(''EUR='' \<mapsto> 115) else lp), w))"
proof -
  let ?line = "''EUR=|115|1705323000000|||''"
  have c: "trim (removeNewlines ?line) = ?line" "?line \<noteq> []"
    by (simp_all add: eval_strings)
  have s: "splitStr ?line CHR ''|'' = [''EUR='', ''115'', ''1705323000000'', [], [], []]"
    by simp
  have f: "validateRic ''EUR='' [] = (Some ''EUR='', [])"
    "validatePrice sampleRuntime ''115'' ''price'' [] = (Some 115, [])"
    "validateTimestamp cfg 1705323000015 ''1705323000000'' [] = (Some 1705323000000, [])"
    "validateOptionalNumber sampleRuntime [] ''volume'' [] = (None, [])"
    "validateOptionalNumber sampleRuntime [] ''bid'' [] = (None, [])"
    "validateOptionalNumber sampleRuntime [] ''ask'' [] = (None, [])"
    using assms by (simp_all add: eval_fields eval_strings eval_numbers)
  show ?thesis
    by (simp add: validateMessage_fields [OF c s f] Let_def split: prod.splits)
qed


subsection \<open>Field count\<close>

lemma splitStr_nonempty: "splitStr s sep \<noteq> []"
  by (induction s) (auto split: list.splits)

lemma length_splitStr: "length (splitStr s sep) = Suc (length (filter (\<lambda>c. c = sep) s))"
proof (induction s)
  case Nil
  then show ?case by simp
next
  case (Cons c cs)
  then show ?case
    using splitStr_nonempty [of cs sep] by (cases "splitStr cs sep") auto
qed

lemma filter_removeNewlines:
  "c \<noteq> CHR 0x0A \<Longrightarrow> c \<noteq> CHR 0x0D \<Longrightarrow>
     filter (\<lambda>x. x = c) (removeNewlines s) = filter (\<lambda>x. x = c) s"
  by (induction s rule: removeNewlines.induct) auto

lemma filter_dropWhile_disjoint:
  "(\<And>x. Q x \<Longrightarrow> \<not> P x) \<Longrightarrow> filter P (dropWhile Q s) = filter P s"
  by (induction s) auto

lemma filter_trim:
  assumes "\<not> isWhiteSpace c"
  shows "filter (\<lambda>x. x = c) (trim s) = filter (\<lambda>x. x = c) s"
proof -
  have d: "\<And>xs. filter (\<lambda>x. x = c) (dropWhile isWhiteSpace xs) = filter (\<lambda>x. x = c) xs"
    using assms by (intro filter_dropWhile_disjoint) auto
  show ?thesis
    unfolding trim_def by (simp add: d flip: rev_filter)
qed

lemma pipe_not_space: "\<not> isWhiteSpace CHR ''|''"
  by (simp add: isWhiteSpace_def)

lemma length_split_clean:
  "length (splitStr (trim (removeNewlines s)) CHR ''|'') = length (splitStr s CHR ''|'')"
  by (simp add: length_splitStr filter_trim pipe_not_space filter_removeNewlines)

text \<open>
  Claim C5. A line whose number of \<open>|\<close>-separated fields is not six is rejected with no
  tick, and the only failure reported is the one about the line as a whole: the empty
  message when nothing is left after cleaning, the wrong field count otherwise. No
  field has been parsed at that point, and the last prices are untouched. (Cleaning
  a line removes no \<open>|\<close>, so the count is the same before and after it.)
\<close>

theorem validateMessage_wrong_field_count:
  assumes "length (splitStr rawMessage CHR ''|'') \<noteq> 6"
  shows "validateMessage rt cfg now lastPrices rawMessage =
           (\<lparr>isValid = False, tick = None,
             errors = (if trim (removeNewlines rawMessage) = [] then [EmptyMessage]
                       else [InvalidMessageFormat (length (splitStr rawMessage CHR ''|''))
                               (trim (removeNewlines rawMessage))])\<rparr>,
            lastPrices, [])"
  using assms unfolding validateMessage_def Let_def
  by (simp add: length_split_clean)

theorem validateMessage_wrong_field_count_witness:
  "length (splitStr ''TOO|FEW|FIELDS'' CHR ''|'') \<noteq> 6 \<and>
   validateMessage sampleRuntime loadConfiguration 1705323000015 Map.empty ''TOO|FEW|FIELDS'' =
     (\<lparr>isValid = False, tick = None,
       errors = [InvalidMessageFormat 3 ''TOO|FEW|FIELDS'']\<rparr>, Map.empty, [])"
proof -
  have h: "length (splitStr ''TOO|FEW|FIELDS'' CHR ''|'') \<noteq> 6" by simp
  show ?thesis
    using h validateMessage_wrong_field_count
      [OF h, of sampleRuntime loadConfiguration 1705323000015 Map.empty]
    by (simp add: eval_strings)
qed

subsection \<open>Shape of the result\<close>

lemma validateMessage_wf:
  "validateMessage rt cfg now lastPrices rawMessage = (r, lp', w) \<Longrightarrow>
     (isValid r \<longleftrightarrow> errors r = []) \<and> (tick r \<noteq> None \<longleftrightarrow> isValid r)"
  unfolding validateMessage_def Let_def
  by (auto split: if_splits prod.splits)

text \<open>
  Claim C9. Whatever the input string and the validator's state, the result is well
  formed: \<open>isValid\<close> holds exactly when the error list is empty, and a tick is present
  exactly when \<open>isValid\<close> holds.
\<close>

theorem validateMessage_result_well_formed:
  "(isValid (fst (validateMessage rt cfg now lastPrices rawMessage)) \<longleftrightarrow>
      errors (fst (validateMessage rt cfg now lastPrices rawMessage)) = []) \<and>
   (tick (fst (validateMessage rt cfg now lastPrices rawMessage)) \<noteq> None \<longleftrightarrow>
      isValid (fst (validateMessage rt cfg now lastPrices rawMessage)))"
proof -
  obtain r lp' w where "validateMessage rt cfg now lastPrices rawMessage = (r, lp', w)"
    by (cases "validateMessage rt cfg now lastPrices rawMessage") auto
  then show ?thesis
    using validateMessage_wf by fastforce
qed

subsection \<open>The last prices\<close>

lemma validateMessage_state:
  assumes "validateMessage rt cfg now lastPrices rawMessage = (r, lastPrices', w)"
  shows "(\<not> isValid r \<longrightarrow> lastPrices' = lastPrices) \<and>
         (isValid r \<longrightarrow> (\<exists>t. tick r = Some t \<and> lastPrices' = lastPrices(ric t \<mapsto> price t)))"
  using assms unfolding validateMessage_def Let_def
  by (auto split: if_splits prod.splits)

text \<open>
  Claim C3. A call that returns an invalid result leaves the map of last prices as it
  was. A call that returns a valid result for instrument \<open>X\<close> with price \<open>P\<close> binds
  \<open>X\<close> to \<open>P\<close>. In both cases every entry that differs afterwards is the entry of
  the accepted tick's instrument.
\<close>

theorem validateMessage_lastPrices:
  assumes "validateMessage rt cfg now lastPrices rawMessage = (r, lastPrices', w)"
  shows "(\<not> isValid r \<longrightarrow> lastPrices' = lastPrices) \<and>
         (isValid r \<longrightarrow>
            (\<exists>t. tick r = Some t \<and> lastPrices' = lastPrices(ric t \<mapsto> price t))) \<and>
         (\<forall>y. lastPrices' y \<noteq> lastPrices y \<longrightarrow> (\<exists>t. tick r = Some t \<and> y = ric t))"
proof (cases "isValid r")
  case True
  then obtain t where "tick r = Some t" "lastPrices' = lastPrices(ric t \<mapsto> price t)"
    using validateMessage_state [OF assms] by blast
  with True show ?thesis by auto
next
  case False
  then have "lastPrices' = lastPrices"
    using validateMessage_state [OF assms] by blast
  with False show ?thesis by simp
qed

theorem validateMessage_lastPrices_witness:
  "(validateMessage sampleRuntime loadConfiguration 1705323000015 Map.empty
      ''AAPL.O|150.60|1705323000000|1000000|150.10|150.75'' =
    (\<lparr>isValid = True,
      tick = Some \<lparr>ric = ''AAPL.O'', price = 150.6, timestamp = 1705323000000,
                   volume = Some 1000000, bid = Some 150.1, ask = Some 150.75\<rparr>,
      errors = []\<rparr>,
     [''AAPL.O'' \<mapsto> 150.6], []) \<and>
    [''AAPL.O'' \<mapsto> 150.6] =
      Map.empty(ric \<lparr>ric = ''AAPL.O'', price = 150.6, timestamp = 1705323000000,
                      volume = Some 1000000, bid = Some 150.1, ask = Some 150.75\<rparr> \<mapsto> (150.6::real))) \<and>
   (validateMessage sampleRuntime loadConfiguration 1705323000015 [''AAPL.O'' \<mapsto> 150.6]
      ''AAPL.O|abc|1705323000000|||'' =
    (\<lparr>isValid = False, tick = None, errors = [NotANumber ''price'' ''abc'']\<rparr>,
     [''AAPL.O'' \<mapsto> 150.6], []) \<and>
    (\<forall>y. [''AAPL.O'' \<mapsto> (150.6::real)] y = [''AAPL.O'' \<mapsto> 150.6] y))"
proof -
  note good = validateMessage_lastPrices [OF example_accepted]
  note bad = validateMessage_lastPrices [OF example_bad_price]
  have "[''AAPL.O'' \<mapsto> 150.6] =
      Map.empty(ric \<lparr>ric = ''AAPL.O'', price = 150.6, timestamp = 1705323000000,
                      volume = Some 1000000, bid = Some 150.1, ask = Some 150.75\<rparr> \<mapsto> (150.6::real))"
    using good by simp
  moreover have "\<forall>y. [''AAPL.O'' \<mapsto> (150.6::real)] y = [''AAPL.O'' \<mapsto> 150.6] y"
    using bad by simp
  ultimately show ?thesis
    using example_accepted example_bad_price by blast
qed

subsection \<open>What an accepted tick satisfies\<close>

lemma validateRic_ok:
  "validateRic f errs = (r, e') \<Longrightarrow> e' = [] \<Longrightarrow>
     errs = [] \<and> r = Some (toUpperCase (trim f)) \<and> 2 \<le> length (trim f) \<and> length (trim f) \<le> 20
       \<and> ricPattern (trim f)"
  by (auto simp: validateRic_def Let_def split: if_splits)

lemma validatePrice_ok:
  "validatePrice rt f name errs = (p, e') \<Longrightarrow> e' = [] \<Longrightarrow>
     errs = [] \<and> (\<exists>x. p = Some x \<and> parseFloat rt (trim f) = Finite x \<and> 0 < x \<and> x \<le> 1000000)"
  by (auto simp: validatePrice_def split: if_splits number.splits)

lemma validateTimestamp_ok:
  "validateTimestamp cfg now f errs = (ts, e') \<Longrightarrow> e' = [] \<Longrightarrow>
     errs = [] \<and> (\<exists>x. ts = Some x \<and> parseInt (trim f) = Some x \<and> minTimestamp \<le> x \<and> x \<le> maxTimestamp
        \<and> now - x \<le> maxTimestampAge (validation cfg) \<and> x \<le> now + 60000)"
  by (auto simp: validateTimestamp_def Let_def split: if_splits option.splits)

lemma validateOptionalNumber_ok:
  "validateOptionalNumber rt f name errs = (v, e') \<Longrightarrow> e' = [] \<Longrightarrow>
     errs = [] \<and> (\<forall>x. v = Some x \<longrightarrow> 0 \<le> x)"
  by (auto simp: validateOptionalNumber_def split: if_splits number.splits)

lemma validateBusinessRules_append:
  "validateBusinessRules cfg lp t errs = (e', w) \<Longrightarrow> e' = [] \<Longrightarrow> errs = []"
  by (auto simp: validateBusinessRules_def Let_def split: if_splits option.splits prod.splits)

lemma accepted_tick:
  assumes "validateMessage rt cfg now lastPrices rawMessage = (r, lastPrices', w)"
    and "tick r = Some t"
  shows "0 < price t \<and> price t \<le> 1000000 \<and> minTimestamp \<le> timestamp t \<and> timestamp t \<le> maxTimestamp"
  using assms unfolding validateMessage_def Let_def
  by (auto split: if_splits prod.splits dest!: validateRic_ok validatePrice_ok validateTimestamp_ok validateOptionalNumber_ok)

subsection \<open>The deviation from the last price\<close>

lemma length_six:
  assumes "length xs = 6"
  obtains f0 f1 f2 f3 f4 f5 where "xs = [f0, f1, f2, f3, f4, f5]"
  using assms by (auto simp: eval_nat_numeral length_Suc_conv)

lemma validateMessage_cases:
  obtains (rejected) e where "e \<noteq> []"
      "\<And>lp. validateMessage rt cfg now lp rawMessage =
         (\<lparr>isValid = False, tick = None, errors = e\<rparr>, lp, [])"
  | (parsed) t where
      "\<And>lp. validateMessage rt cfg now lp rawMessage =
         (case validateBusinessRules cfg lp t [] of
            (e7, w) \<Rightarrow>
              (\<lparr>isValid = (e7 = []), tick = (if e7 = [] then Some t else None), errors = e7\<rparr>,
               (if e7 = [] then lp(ric t \<mapsto> price t) else lp), w))"
proof -
  let ?clean = "trim (removeNewlines rawMessage)"
  let ?parts = "splitStr ?clean CHR ''|''"
  show thesis
  proof (cases "?clean = [] \<or> length ?parts \<noteq> 6")
    case True
    show ?thesis
      by (rule rejected [of "if ?clean = [] then [EmptyMessage]
                             else [InvalidMessageFormat (length ?parts) ?clean]"])
         (use True in \<open>auto simp: validateMessage_def Let_def\<close>)
  next
    case False
    then have ne: "?clean \<noteq> []" and six: "length ?parts = 6" by auto
    from six obtain f0 f1 f2 f3 f4 f5 where parts: "?parts = [f0, f1, f2, f3, f4, f5]"
      by (rule length_six)
    obtain r e1 where 1: "validateRic f0 [] = (r, e1)" by (cases "validateRic f0 []") auto
    obtain p e2 where 2: "validatePrice rt f1 ''price'' e1 = (p, e2)"
      by (cases "validatePrice rt f1 ''price'' e1") auto
    obtain ts e3 where 3: "validateTimestamp cfg now f2 e2 = (ts, e3)"
      by (cases "validateTimestamp cfg now f2 e2") auto
    obtain v e4 where 4: "validateOptionalNumber rt f3 ''volume'' e3 = (v, e4)"
      by (cases "validateOptionalNumber rt f3 ''volume'' e3") auto
    obtain b e5 where 5: "validateOptionalNumber rt f4 ''bid'' e4 = (b, e5)"
      by (cases "validateOptionalNumber rt f4 ''bid'' e4") auto
    obtain a e6 where 6: "validateOptionalNumber rt f5 ''ask'' e5 = (a, e6)"
      by (cases "validateOptionalNumber rt f5 ''ask'' e5") auto
    note eq = validateMessage_fields [OF refl ne parts 1 2 3 4 5 6]
    show ?thesis
    proof (cases "e6 = []")
      case True
      show ?thesis
        by (rule parsed [of "\<lparr>ric = the r, price = the p, timestamp = the ts,
                              volume = v, bid = b, ask = a\<rparr>"])
           (simp add: eq True Let_def)
    next
      case False
      show ?thesis
        by (rule rejected [of e6]) (simp_all add: eq False)
    qed
  qed
qed

lemma businessRules_without_last:
  assumes "lp X = None" and "ric t = X"
  shows "validateBusinessRules cfg lp t [] = ([], w) \<longleftrightarrow>
      w = [] \<and>
      (case (bid t, ask t) of (Some b, Some a) \<Rightarrow> \<not> b > a \<and> \<not> (price t < b \<or> price t > a) | _ \<Rightarrow> True) \<and>
      \<not> (volume t = Some 0 \<and> strictMode (validation cfg))"
  using assms unfolding validateBusinessRules_def Let_def
  by (auto split: option.splits)

text \<open>
  Claim C4, amended. Let the validator hold the last accepted price \<open>P\<close> for instrument
  \<open>X\<close>, and let a line carry a tick for \<open>X\<close> with price \<open>P'\<close> that passes every other
  check: the validator accepts the same line when it holds no last price for \<open>X\<close>,
  where only the deviation rule does not apply. The deviation is the number that
  \<open>Math.abs(P' - P) / P\<close> computes: the difference rounded to a double, and the quotient
  of its magnitude by \<open>P\<close> rounded to a double. In strict mode the line is rejected
  exactly when this deviation exceeds the configured maximum, by default the double
  nearest to \<open>0.1\<close>. In permissive mode the line is accepted whatever the deviation, the
  last price of \<open>X\<close> becomes \<open>P'\<close>, and a warning is emitted exactly when the deviation
  exceeds the maximum.
\<close>

theorem price_deviation_rule:
  assumes others: "validateMessage rt cfg now (lastPrices(X := None)) rawMessage = (r0, lp0, w0)"
      "tick r0 = Some t" "ric t = X" "price t = P'"
    and last: "lastPrices X = Some P"
    and run: "validateMessage rt cfg now lastPrices rawMessage = (r, lastPrices', w)"
  shows "(strictMode (validation cfg) \<longrightarrow>
            (\<not> isValid r \<longleftrightarrow>
               js_gt (priceDeviation P' P) (maxPriceDeviation (validation cfg)))) \<and>
         (\<not> strictMode (validation cfg) \<longrightarrow>
            isValid r \<and> tick r = Some t \<and> lastPrices' X = Some P' \<and>
            (w = (if js_gt (priceDeviation P' P) (maxPriceDeviation (validation cfg))
                  then [LargePriceDeviation X (priceDeviation P' P) P P'] else [])))"
proof (cases rule: validateMessage_cases [of rt cfg now rawMessage])
  case (rejected e)
  have "tick r0 = None"
    using rejected(2) [of "lastPrices(X := None)"] others(1) by auto
  with others(2) show ?thesis by simp
next
  case (parsed t')
  obtain e7 w7 where b0: "validateBusinessRules cfg (lastPrices(X := None)) t' [] = (e7, w7)"
    by (cases "validateBusinessRules cfg (lastPrices(X := None)) t' []") auto
  with parsed [of "lastPrices(X := None)"] others have t': "t' = t" and e7: "e7 = []"
    by (auto split: if_splits)
  have rules: "(case (bid t, ask t) of (Some b, Some a) \<Rightarrow> \<not> b > a \<and> \<not> (price t < b \<or> price t > a) | _ \<Rightarrow> True)"
     "\<not> (volume t = Some 0 \<and> strictMode (validation cfg))"
    using businessRules_without_last [of "lastPrices(X := None)" X t cfg w7] b0 others(3) t' e7
    by auto
  have "validateBusinessRules cfg lastPrices t [] =
     (if js_gt (priceDeviation P' P) (maxPriceDeviation (validation cfg)) then
        (if strictMode (validation cfg) then ([SuspiciousPriceChange (priceDeviation P' P) P P'], [])
         else ([], [LargePriceDeviation X (priceDeviation P' P) P P']))
      else ([], []))"
    using rules others(3,4) last unfolding validateBusinessRules_def Let_def
    by (auto split: option.splits)
  with parsed [of lastPrices] run t' others(3,4) show ?thesis
    by (auto split: if_splits)
qed

lemma deviation_15_percent:
  "priceDeviation 115 100 = Finite (nearestDouble (3 / 20))"
  "nearestDouble (1 / 10) < nearestDouble (3 / 20)"
  by (simp_all add: eval_doubles)

theorem price_deviation_rule_witness:
  "(validateMessage sampleRuntime strictConfiguration 1705323000015 [''EUR='' \<mapsto> 100]
      ''EUR=|115|1705323000000|||'' =
    (\<lparr>isValid = False, tick = None,
      errors = [SuspiciousPriceChange (Finite (nearestDouble 0.15)) 100 115]\<rparr>,
     [''EUR='' \<mapsto> 100], [])) \<and>
   (validateMessage sampleRuntime loadConfiguration 1705323000015 [''EUR='' \<mapsto> 100]
      ''EUR=|115|1705323000000|||'' =
    (\<lparr>isValid = True,
      tick = Some \<lparr>ric = ''EUR='', price = 115, timestamp = 1705323000000,
                   volume = None, bid = None, ask = None\<rparr>,
      errors = []\<rparr>, [''EUR='' \<mapsto> 115],
     [LargePriceDeviation ''EUR='' (Finite (nearestDouble 0.15)) 100 115])) \<and>
   js_gt (priceDeviation 115 100) (maxPriceDeviation (validation loadConfiguration))"
proof -
  let ?t = "\<lparr>ric = ''EUR='', price = 115, timestamp = 1705323000000,
             volume = None, bid = None, ask = None\<rparr>"
  let ?ok = "\<lparr>isValid = True, tick = Some ?t, errors = []\<rparr>"
  have fresh_strict:
    "validateMessage sampleRuntime strictConfiguration 1705323000015
       ([''EUR='' \<mapsto> 100](''EUR='' := None)) ''EUR=|115|1705323000000|||'' =
     (?ok, [''EUR='' \<mapsto> 115], [])"
    by (simp add: example_eur strictConfiguration_def validateBusinessRules_def)
  have fresh_permissive:
    "validateMessage sampleRuntime loadConfiguration 1705323000015
       ([''EUR='' \<mapsto> 100](''EUR='' := None)) ''EUR=|115|1705323000000|||'' =
     (?ok, [''EUR='' \<mapsto> 115], [])"
    by (simp add: example_eur loadConfiguration_def validateBusinessRules_def)
  have strict:
    "validateMessage sampleRuntime strictConfiguration 1705323000015 [''EUR='' \<mapsto> 100]
       ''EUR=|115|1705323000000|||'' =
     (\<lparr>isValid = False, tick = None,
       errors = [SuspiciousPriceChange (Finite (nearestDouble 0.15)) 100 115]\<rparr>,
      [''EUR='' \<mapsto> 100], [])"
    by (simp add: example_eur strictConfiguration_def validateBusinessRules_def Let_def
          deviation_15_percent)
  have permissive:
    "validateMessage sampleRuntime loadConfiguration 1705323000015 [''EUR='' \<mapsto> 100]
       ''EUR=|115|1705323000000|||'' =
     (?ok, [''EUR='' \<mapsto> 115],
      [LargePriceDeviation ''EUR='' (Finite (nearestDouble 0.15)) 100 115])"
    by (simp add: example_eur loadConfiguration_def validateBusinessRules_def Let_def
          deviation_15_percent)
  have last: "[''EUR='' \<mapsto> (100::real)] ''EUR='' = Some 100"
    by simp
  have t: "tick ?ok = Some ?t" "ric ?t = ''EUR=''" "price ?t = 115"
    by simp_all
  note s = price_deviation_rule [OF fresh_strict t last strict]
  note p = price_deviation_rule [OF fresh_permissive t last permissive]
  have "js_gt (priceDeviation 115 100) (maxPriceDeviation (validation loadConfiguration))"
    using s by (simp add: strictConfiguration_def loadConfiguration_def)
  with strict permissive p show ?thesis
    by blast
qed

lemma example_rounded:
  assumes "maxTimestampAge (validation cfg) = 300000"
  shows "validateMessage doubleRuntime cfg 1705323000015 lp ''EUR=|7.843|1705323000000|||'' =
   (case validateBusinessRules cfg lp
           \<lparr>ric = ''EUR='', price = nearestDouble 7.843, timestamp = 1705323000000,
            volume = None, bid = None, ask = None\<rparr> [] of
      (e7, w) \<Rightarrow>
        (\<lparr>isValid = (e7 = []),
          tick = (if e7 = [] then
                    Some \<lparr>ric = ''EUR='', price = nearestDouble 7.843, timestamp = 1705323000000,
                          volume = None, bid = None, ask = None\<rparr>
                  else None),
          errors = e7\<rparr>,
         (if e7 = [] then lp(''EUR='' \<mapsto> nearestDouble 7.843) else lp), w))"
proof -
  let ?line = "''EUR=|7.843|1705323000000|||''"
  have c: "trim (removeNewlines ?line) = ?line" "?line \<noteq> []"
    by (simp_all add: eval_strings)
  have s: "splitStr ?line CHR ''|'' = [''EUR='', ''7.843'', ''1705323000000'', [], [], []]"
    by simp
  have f: "validateRic ''EUR='' [] = (Some ''EUR='', [])"
    "validatePrice doubleRuntime ''7.843'' ''price'' [] = (Some (nearestDouble 7.843), [])"
    "validateTimestamp cfg 1705323000015 ''1705323000000'' [] = (Some 1705323000000, [])"
    "validateOptionalNumber doubleRuntime [] ''volume'' [] = (None, [])"
    "validateOptionalNumber doubleRuntime [] ''bid'' [] = (None, [])"
    "validateOptionalNumber doubleRuntime [] ''ask'' [] = (None, [])"
    using assms by (simp_all add: eval_fields eval_strings eval_numbers eval_doubles)
  show ?thesis
    by (simp add: validateMessage_fields [OF c s f] Let_def split: prod.splits)
qed

text \<open>
  Claim C4 as stated fails: the validator compares the deviation that it computes in
  double arithmetic, not the quotient \<open>|P' - P| / P\<close> itself. With the last price the
  double nearest to \<open>7.13\<close>, the line \<open>EUR=|7.843|1705323000000|||\<close> passes every other
  check, its price is the double nearest to \<open>7.843\<close>, and \<open>|P' - P| / P\<close> exceeds both
  \<open>0.1\<close> and the configured maximum, the double nearest to \<open>0.1\<close>. The computed
  deviation is that double itself, which does not exceed the maximum, and the
  validator accepts the line in strict mode.
\<close>

theorem price_deviation_rule_counterexample:
  "isValid (fst (validateMessage doubleRuntime strictConfiguration 1705323000015 Map.empty
                   ''EUR=|7.843|1705323000000|||'')) \<and>
   fst (validateMessage doubleRuntime strictConfiguration 1705323000015
          [''EUR='' \<mapsto> nearestDouble 7.13] ''EUR=|7.843|1705323000000|||'') =
     \<lparr>isValid = True,
      tick = Some \<lparr>ric = ''EUR='', price = nearestDouble 7.843, timestamp = 1705323000000,
                   volume = None, bid = None, ask = None\<rparr>,
      errors = []\<rparr> \<and>
   strictMode (validation strictConfiguration) \<and>
   maxPriceDeviation (validation strictConfiguration) <
     \<bar>nearestDouble 7.843 - nearestDouble 7.13\<bar> / nearestDouble 7.13 \<and>
   0.1 < \<bar>nearestDouble 7.843 - nearestDouble 7.13\<bar> / nearestDouble 7.13 \<and>
   priceDeviation (nearestDouble 7.843) (nearestDouble 7.13) =
     Finite (maxPriceDeviation (validation strictConfiguration))"
proof -
  have "validateBusinessRules strictConfiguration Map.empty
          \<lparr>ric = ''EUR='', price = nearestDouble 7.843, timestamp = 1705323000000,
           volume = None, bid = None, ask = None\<rparr> [] = ([], [])"
    by (simp add: validateBusinessRules_def)
  moreover have "validateBusinessRules strictConfiguration [''EUR='' \<mapsto> nearestDouble 7.13]
          \<lparr>ric = ''EUR='', price = nearestDouble 7.843, timestamp = 1705323000000,
           volume = None, bid = None, ask = None\<rparr> [] = ([], [])"
    by (simp add: validateBusinessRules_def Let_def strictConfiguration_def eval_doubles)
  moreover have "maxPriceDeviation (validation strictConfiguration) <
       \<bar>nearestDouble 7.843 - nearestDouble 7.13\<bar> / nearestDouble 7.13"
    "0.1 < \<bar>nearestDouble 7.843 - nearestDouble 7.13\<bar> / nearestDouble 7.13"
    "priceDeviation (nearestDouble 7.843) (nearestDouble 7.13) =
       Finite (maxPriceDeviation (validation strictConfiguration))"
    by (simp_all add: strictConfiguration_def eval_doubles)
  ultimately show ?thesis
    by (simp add: example_rounded strictConfiguration_def)
qed

subsection \<open>Decimal integers and plain strings\<close>

lemma digit_cases:
  assumes "d < (10::nat)"
  shows "d \<in> {0, 1, 2, 3, 4, 5, 6, 7, 8, 9}"
  using assms by auto

lemma isDigit_digitChar: "d < 10 \<Longrightarrow> isDigit (digitChar d)"
  by (drule digit_cases) (auto simp: digitChar_def isDigit_def)

lemma digitValue_digitChar: "d < 10 \<Longrightarrow> digitValue (digitChar d) = d"
  by (drule digit_cases) (auto simp: digitChar_def digitValue_def)

lemma digits_nonempty: "digits n \<noteq> []"
  by (subst digits.simps) simp

lemma digits_isDigit: "c \<in> set (digits n) \<Longrightarrow> isDigit c"
proof (induction n arbitrary: c rule: digits.induct)
  case (1 n)
  show ?case
  proof (cases "n < 10")
    case True
    with "1.prems" show ?thesis
      by (subst (asm) digits.simps) (simp add: isDigit_digitChar)
  next
    case False
    with "1.prems" "1.IH" show ?thesis
      by (subst (asm) digits.simps) (auto simp: isDigit_digitChar)
  qed
qed

lemma digitsValue_snoc: "digitsValue (z @ [c]) = 10 * digitsValue z + digitValue c"
  by (simp add: digitsValue_def)

lemma digitsValue_digits: "digitsValue (digits n) = n"
proof (induction n rule: digits.induct)
  case (1 n)
  show ?case
  proof (cases "n < 10")
    case True
    then show ?thesis
      by (subst digits.simps) (simp add: digitsValue_def digitValue_digitChar)
  next
    case False
    with "1.IH" show ?thesis
      by (subst digits.simps) (simp add: digitsValue_snoc digitValue_digitChar)
  qed
qed

lemma isDigit_plain: "isDigit c \<Longrightarrow> \<not> isWhiteSpace c \<and> c \<noteq> CHR ''|'' \<and> c \<noteq> CHR ''-'' \<and> c \<noteq> CHR ''+''"
  by (auto simp: isDigit_def isWhiteSpace_def)

lemma takeWhile_digits: "takeWhile isDigit (digits n) = digits n"
  by (simp add: digits_isDigit)

lemma parseInt_digits: "parseInt (digits n) = Some (int n)"
proof -
  obtain c cs where d: "digits n = c # cs"
    using digits_nonempty [of n] by (cases "digits n") auto
  then have "isDigit c" using digits_isDigit [of c n] by simp
  then have c: "\<not> isWhiteSpace c" "c \<noteq> CHR ''-''" "c \<noteq> CHR ''+''"
    using isDigit_plain by blast+
  have "takeWhile isDigit (c # cs) = c # cs"
    using takeWhile_digits [of n] d by simp
  with c d show ?thesis
    using digitsValue_digits [of n] by (simp add: parseInt_def Let_def)
qed

lemma parseInt_intToString: "parseInt (intToString n) = Some n"
proof (cases "n < 0")
  case False
  then show ?thesis by (simp add: intToString_def parseInt_digits)
next
  case True
  have m: "\<not> isWhiteSpace CHR ''-''" by (simp add: isWhiteSpace_def)
  have "digits (nat (- n)) \<noteq> []" by (rule digits_nonempty)
  with True m show ?thesis
    using digitsValue_digits [of "nat (- n)"]
    by (simp add: intToString_def parseInt_def Let_def takeWhile_digits)
qed

lemma intToString_plain:
  assumes "c \<in> set (intToString n)"
  shows "\<not> isWhiteSpace c \<and> c \<noteq> CHR ''|''"
proof -
  from assms consider "c = CHR ''-''" | m where "c \<in> set (digits m)"
    by (cases "n < 0") (auto simp: intToString_def)
  then show ?thesis
  proof cases
    case 1
    then show ?thesis by (simp add: isWhiteSpace_def)
  next
    case 2
    then have "isDigit c" by (rule digits_isDigit)
    then show ?thesis using isDigit_plain by blast
  qed
qed

lemma intToString_nonempty: "intToString n \<noteq> []"
  by (simp add: intToString_def digits_nonempty)

lemma dropWhile_none: "(\<And>c. c \<in> set s \<Longrightarrow> \<not> P c) \<Longrightarrow> dropWhile P s = s"
  by (cases s) auto

lemma trim_plain:
  assumes "\<And>c. c \<in> set s \<Longrightarrow> \<not> isWhiteSpace c"
  shows "trim s = s"
proof -
  have "dropWhile isWhiteSpace s = s"
    using assms by (rule dropWhile_none)
  moreover have "dropWhile isWhiteSpace (rev s) = rev s"
    using assms by (intro dropWhile_none) simp
  ultimately show ?thesis
    by (simp add: trim_def)
qed

lemma removeNewlines_plain: "CHR 0x0A \<notin> set s \<Longrightarrow> removeNewlines s = s"
  by (induction s rule: removeNewlines.induct) auto

lemma splitStr_plain: "sep \<notin> set p \<Longrightarrow> splitStr p sep = [p]"
  by (induction p) auto

lemma splitStr_append: "sep \<notin> set p \<Longrightarrow> splitStr (p @ sep # rest) sep = p # splitStr rest sep"
  by (induction p) auto

lemma splitStr_joinStr:
  "ps \<noteq> [] \<Longrightarrow> (\<And>p. p \<in> set ps \<Longrightarrow> sep \<notin> set p) \<Longrightarrow> splitStr (joinStr ps sep) sep = ps"
  by (induction ps sep rule: joinStr.induct) (auto simp: splitStr_plain splitStr_append)

subsection \<open>Encoding and decoding a tick\<close>

lemma ricChar_plain: "ricChar c \<Longrightarrow> \<not> isWhiteSpace c \<and> c \<noteq> CHR ''|''"
  by (auto simp: ricChar_def isWhiteSpace_def)

lemma validRic_plain: "validRic r \<Longrightarrow> c \<in> set r \<Longrightarrow> \<not> isWhiteSpace c \<and> c \<noteq> CHR ''|''"
  by (auto simp: validRic_def ricPattern_def list_all_iff dest: ricChar_plain)

lemma validateRic_valid:
  assumes "validRic r"
  shows "validateRic r errs = (Some (toUpperCase r), errs)"
proof -
  have "trim r = r"
    using validRic_plain [OF assms] by (intro trim_plain) blast
  moreover have "r \<noteq> []" using assms by (auto simp: validRic_def)
  ultimately show ?thesis
    using assms by (simp add: validateRic_def validRic_def)
qed

lemma printsPlainly_chars:
  "printsPlainly rt x \<Longrightarrow> c \<in> set (numberToString rt x) \<Longrightarrow> \<not> isWhiteSpace c \<and> c \<noteq> CHR ''|''"
  by (auto simp: printsPlainly_def list_all_iff)

lemma printsPlainly_trim: "printsPlainly rt x \<Longrightarrow> trim (numberToString rt x) = numberToString rt x"
  by (intro trim_plain) (auto dest: printsPlainly_chars)

lemma validatePrice_printed:
  assumes "printsPlainly rt x" "0 < x" "x \<le> 1000000"
  shows "validatePrice rt (numberToString rt x) name errs = (Some x, errs)"
  using assms printsPlainly_trim [OF assms(1)]
  by (simp add: validatePrice_def printsPlainly_def)

lemma validateTimestamp_printed:
  assumes "minTimestamp \<le> ts" "ts \<le> maxTimestamp"
    "now - ts \<le> maxTimestampAge (validation cfg)" "ts \<le> now + 60000"
  shows "validateTimestamp cfg now (intToString ts) errs = (Some ts, errs)"
proof -
  have "trim (intToString ts) = intToString ts"
    by (intro trim_plain) (auto dest: intToString_plain)
  then show ?thesis
    using assms intToString_nonempty [of ts]
    by (simp add: validateTimestamp_def parseInt_intToString)
qed

lemma validateOptionalNumber_printed:
  assumes "printsPlainlyOpt rt x" "withinOpt limit x"
    and "name = ''volume'' \<and> limit = 1000000000 \<or> (name = ''bid'' \<or> name = ''ask'') \<and> limit = 1000000"
  shows "validateOptionalNumber rt (optionalToString rt x) name errs = (x, errs)"
proof (cases x)
  case None
  then show ?thesis by (simp add: validateOptionalNumber_def optionalToString_def)
next
  case (Some v)
  with assms have p: "printsPlainly rt v" and v: "0 \<le> v" "v \<le> limit"
    by (auto simp: printsPlainlyOpt_def withinOpt_def)
  from p have s: "optionalToString rt x = numberToString rt v" "numberToString rt v \<noteq> []"
    using Some by (auto simp: optionalToString_def printsPlainly_def)
  show ?thesis
    using p v s assms(3) Some printsPlainly_trim [OF p]
    by (auto simp: validateOptionalNumber_def printsPlainly_def)
qed

lemma optionalToString_plain:
  "printsPlainlyOpt rt x \<Longrightarrow> c \<in> set (optionalToString rt x) \<Longrightarrow> \<not> isWhiteSpace c \<and> c \<noteq> CHR ''|''"
  by (cases x) (auto simp: optionalToString_def printsPlainlyOpt_def dest: printsPlainly_chars split: if_splits)


lemma set_joinStr: "c \<in> set (joinStr ps sep) \<Longrightarrow> c = sep \<or> (\<exists>p \<in> set ps. c \<in> set p)"
  by (induction ps sep rule: joinStr.induct) auto

lemma businessRules_pass:
  assumes "passesChecks cfg now lastPrices t"
  shows "fst (validateBusinessRules cfg lastPrices (t\<lparr>ric := toUpperCase (ric t)\<rparr>) []) = []"
  using assms unfolding passesChecks_def validateBusinessRules_def Let_def
  by (auto split: option.splits if_splits prod.splits)

text \<open>
  Claim C1, amended. Let a tick pass the validator's checks for the configuration, the
  clock and the last prices at the time of decoding (in strict mode the deviation from
  the last price is the one that the validator computes, in double arithmetic), and
  let the runtime print its numbers plainly. Then the validator accepts the line that \<open>formatTick\<close> produces, and
  the tick it returns is the original with the instrument in upper case: same price,
  same timestamp, and each of volume, bid and ask present exactly when it was, with
  the same value. The last price of the instrument becomes the tick's price.
\<close>

theorem formatTick_validateMessage_roundtrip:
  assumes ok: "passesChecks cfg now lastPrices t"
    and pp: "printsPlainly rt (price t)"
    and pv: "printsPlainlyOpt rt (volume t)"
    and pb: "printsPlainlyOpt rt (bid t)"
    and pa: "printsPlainlyOpt rt (ask t)"
  shows "fst (validateMessage rt cfg now lastPrices (formatTick rt t)) =
           \<lparr>isValid = True, tick = Some (t\<lparr>ric := toUpperCase (ric t)\<rparr>), errors = []\<rparr> \<and>
         fst (snd (validateMessage rt cfg now lastPrices (formatTick rt t))) =
           lastPrices(toUpperCase (ric t) \<mapsto> price t)"
proof -
  let ?fields = "[ric t, numberToString rt (price t), intToString (timestamp t),
                  optionalToString rt (volume t), optionalToString rt (bid t),
                  optionalToString rt (ask t)]"
  let ?line = "formatTick rt t"
  let ?t = "t\<lparr>ric := toUpperCase (ric t)\<rparr>"
  from ok have ric: "validRic (ric t)" by (simp add: passesChecks_def)
  have plain: "\<not> isWhiteSpace c \<and> c \<noteq> CHR ''|''" if "p \<in> set ?fields" "c \<in> set p" for p c
    using that ric pp pv pb pa
    by (auto dest: validRic_plain printsPlainly_chars intToString_plain optionalToString_plain)
  have line: "?line = joinStr ?fields CHR ''|''"
    by (simp add: formatTick_def)
  have nospace: "\<not> isWhiteSpace c" if "c \<in> set ?line" for c
    using set_joinStr [of c ?fields "CHR ''|''"] that plain pipe_not_space
    unfolding line by blast
  have "CHR 0x0A \<notin> set ?line"
    using nospace by (auto simp: isWhiteSpace_def)
  then have clean: "trim (removeNewlines ?line) = ?line"
    using nospace by (simp add: removeNewlines_plain trim_plain)
  have "ric t \<noteq> []" using ric by (auto simp: validRic_def)
  then have ne: "?line \<noteq> []" by (simp add: formatTick_def)
  have split: "splitStr ?line CHR ''|'' = ?fields"
    unfolding line using plain by (intro splitStr_joinStr) blast+
  from ok have range: "0 < price t" "price t \<le> 1000000"
    "minTimestamp \<le> timestamp t" "timestamp t \<le> maxTimestamp"
    "now - timestamp t \<le> maxTimestampAge (validation cfg)" "timestamp t \<le> now + 60000"
    "withinOpt 1000000000 (volume t)" "withinOpt 1000000 (bid t)" "withinOpt 1000000 (ask t)"
    by (simp_all add: passesChecks_def)
  note f = validateRic_valid [OF ric, of "[]"]
    validatePrice_printed [OF pp range(1,2), of "''price''" "[]"]
    validateTimestamp_printed [OF range(3-6), of "[]"]
    validateOptionalNumber_printed [OF pv range(7), of "''volume''" "[]"]
    validateOptionalNumber_printed [OF pb range(8), of "''bid''" "[]"]
    validateOptionalNumber_printed [OF pa range(9), of "''ask''" "[]"]
  have t: "\<lparr>ric = toUpperCase (ric t), price = price t, timestamp = timestamp t,
            volume = volume t, bid = bid t, ask = ask t\<rparr> = ?t"
    by simp
  obtain e7 w where b: "validateBusinessRules cfg lastPrices ?t [] = (e7, w)"
    by (cases "validateBusinessRules cfg lastPrices ?t []") auto
  with businessRules_pass [OF ok] have e7: "e7 = []" by simp
  have "validateMessage rt cfg now lastPrices ?line =
          (\<lparr>isValid = True, tick = Some ?t, errors = []\<rparr>,
           lastPrices(toUpperCase (ric t) \<mapsto> price t), w)"
    using validateMessage_fields [OF clean ne split f] b e7
    by (simp add: t Let_def)
  then show ?thesis by simp
qed

lemma sample_prints:
  "printsPlainly sampleRuntime 150.6" "printsPlainly sampleRuntime 150.1"
  "printsPlainly sampleRuntime 1000000" "printsPlainly sampleRuntime 115"
  by (simp_all add: printsPlainly_def eval_numbers eval_strings)

lemma sample_formats:
  "formatTick sampleRuntime
     \<lparr>ric = ''aapl.o'', price = 150.6, timestamp = 1705323000000,
      volume = Some 1000000, bid = Some 150.1, ask = None\<rparr> =
   ''aapl.o|150.6|1705323000000|1000000|150.1|''"
  "formatTick sampleRuntime
     \<lparr>ric = ''EUR='', price = 115, timestamp = 1705323000000,
      volume = None, bid = None, ask = None\<rparr> =
   ''EUR=|115|1705323000000|||''"
  by (simp_all add: formatTick_def optionalToString_def eval_numbers eval_strings)

lemma double_formats:
  "formatTick doubleRuntime
     \<lparr>ric = ''aapl.o'', price = 150.75, timestamp = 1705323000000,
      volume = Some 1000000, bid = Some 150.5, ask = None\<rparr> =
   ''aapl.o|150.75|1705323000000|1000000|150.5|''"
  by (simp add: formatTick_def optionalToString_def eval_numbers eval_strings doubleRuntime_def)

theorem formatTick_validateMessage_roundtrip_witness:
  "passesChecks strictConfiguration 1705323000015 [''AAPL.O'' \<mapsto> 150.5]
     \<lparr>ric = ''aapl.o'', price = 150.75, timestamp = 1705323000000,
      volume = Some 1000000, bid = Some 150.5, ask = None\<rparr> \<and>
   formatTick doubleRuntime
     \<lparr>ric = ''aapl.o'', price = 150.75, timestamp = 1705323000000,
      volume = Some 1000000, bid = Some 150.5, ask = None\<rparr> =
     ''aapl.o|150.75|1705323000000|1000000|150.5|'' \<and>
   fst (validateMessage doubleRuntime strictConfiguration 1705323000015
          [''AAPL.O'' \<mapsto> 150.5] ''aapl.o|150.75|1705323000000|1000000|150.5|'') =
     \<lparr>isValid = True,
      tick = Some \<lparr>ric = ''AAPL.O'', price = 150.75, timestamp = 1705323000000,
                   volume = Some 1000000, bid = Some 150.5, ask = None\<rparr>,
      errors = []\<rparr>"
proof -
  let ?t = "\<lparr>ric = ''aapl.o'', price = 150.75, timestamp = 1705323000000,
             volume = Some 1000000, bid = Some 150.5, ask = None\<rparr>"
  let ?last = "[''AAPL.O'' \<mapsto> 150.5 :: real]"
  have ok: "passesChecks strictConfiguration 1705323000015 ?last ?t"
    by (simp add: passesChecks_def validRic_def withinOpt_def eval_strings
          minTimestamp_def maxTimestamp_def strictConfiguration_def eval_doubles)
  have p: "printsPlainly doubleRuntime (price ?t)"
    "printsPlainlyOpt doubleRuntime (volume ?t)"
    "printsPlainlyOpt doubleRuntime (bid ?t)"
    "printsPlainlyOpt doubleRuntime (ask ?t)"
    by (simp_all add: printsPlainlyOpt_def printsPlainly_def eval_numbers eval_strings
          eval_doubles)
  have u: "?t\<lparr>ric := toUpperCase (ric ?t)\<rparr> =
           \<lparr>ric = ''AAPL.O'', price = 150.75, timestamp = 1705323000000,
            volume = Some 1000000, bid = Some 150.5, ask = None\<rparr>"
    by (simp add: eval_strings)
  show ?thesis
    using formatTick_validateMessage_roundtrip [OF ok p] ok
    by (simp only: double_formats u)
qed


lemma example_eur_late:
  "validateMessage sampleRuntime loadConfiguration 1705323400015 Map.empty
     ''EUR=|115|1705323000000|||'' =
   (\<lparr>isValid = False, tick = None,
     errors = [TimestampTooOld 1705323000000 400015 300000]\<rparr>, Map.empty, [])"
proof -
  let ?line = "''EUR=|115|1705323000000|||''"
  let ?e = "[TimestampTooOld 1705323000000 400015 300000]"
  have c: "trim (removeNewlines ?line) = ?line" "?line \<noteq> []"
    by (simp_all add: eval_strings)
  have s: "splitStr ?line CHR ''|'' = [''EUR='', ''115'', ''1705323000000'', [], [], []]"
    by simp
  have f: "validateRic ''EUR='' [] = (Some ''EUR='', [])"
    "validatePrice sampleRuntime ''115'' ''price'' [] = (Some 115, [])"
    "validateTimestamp loadConfiguration 1705323400015 ''1705323000000'' [] = (None, ?e)"
    "validateOptionalNumber sampleRuntime [] ''volume'' ?e = (None, ?e)"
    "validateOptionalNumber sampleRuntime [] ''bid'' ?e = (None, ?e)"
    "validateOptionalNumber sampleRuntime [] ''ask'' ?e = (None, ?e)"
    by (simp_all add: eval_fields eval_strings eval_numbers)
  show ?thesis
    by (simp add: validateMessage_fields [OF c s f])
qed

text \<open>
  Claim C1 as stated fails: whether the validator accepts the line of a tick depends on
  more than the tick. The same tick, printed as \<open>EUR=|115|1705323000000|||\<close>, is
  accepted by a validator without a last price for the instrument, rejected in strict
  mode by a validator whose last price for it is 100, and rejected by a validator whose
  clock is 400 seconds past the tick's timestamp.
\<close>

theorem formatTick_validateMessage_counterexample:
  "formatTick sampleRuntime
     \<lparr>ric = ''EUR='', price = 115, timestamp = 1705323000000,
      volume = None, bid = None, ask = None\<rparr> = ''EUR=|115|1705323000000|||'' \<and>
   isValid (fst (validateMessage sampleRuntime strictConfiguration 1705323000015 Map.empty
                   ''EUR=|115|1705323000000|||'')) \<and>
   \<not> isValid (fst (validateMessage sampleRuntime strictConfiguration 1705323000015
                     [''EUR='' \<mapsto> 100] ''EUR=|115|1705323000000|||'')) \<and>
   \<not> isValid (fst (validateMessage sampleRuntime loadConfiguration 1705323400015 Map.empty
                     ''EUR=|115|1705323000000|||''))"
  by (simp add: sample_formats example_eur example_eur_late strictConfiguration_def
        validateBusinessRules_def Let_def deviation_15_percent)

section \<open>Properties of the enrichment\<close>

lemma enrichTick_sequence:
  "sequenceId (fst (enrichTick now svc t rawMessage)) =
     intToString now @ ''-'' @ intToString (int (sequenceCounter svc + 1))"
  "sequenceCounter (snd (enrichTick now svc t rawMessage)) = sequenceCounter svc + 1"
  by (simp_all add: enrichTick_def Let_def)

lemma enrichTicks_ids:
  "enrichTicks svc calls = (es, svc') \<Longrightarrow>
     length es = length calls \<and>
     sequenceCounter svc' = sequenceCounter svc + length calls \<and>
     (\<forall>k < length calls.
        sequenceId (es ! k) =
          intToString (fst (calls ! k)) @ ''-'' @ intToString (int (sequenceCounter svc + k + 1)))"
proof (induction calls arbitrary: svc es svc')
  case Nil
  then show ?case by simp
next
  case (Cons call calls)
  obtain now t rawMessage where call: "call = (now, t, rawMessage)"
    by (cases call) auto
  obtain e svc1 where 1: "enrichTick now svc t rawMessage = (e, svc1)"
    by (cases "enrichTick now svc t rawMessage") auto
  obtain es1 svc2 where 2: "enrichTicks svc1 calls = (es1, svc2)"
    by (cases "enrichTicks svc1 calls") auto
  from Cons.prems call 1 2 have es: "es = e # es1" and svc': "svc' = svc2"
    by simp_all
  from 1 have e: "sequenceId e = intToString now @ ''-'' @ intToString (int (sequenceCounter svc + 1))"
    and c: "sequenceCounter svc1 = sequenceCounter svc + 1"
    using enrichTick_sequence [of now svc t rawMessage] by simp_all
  note IH = Cons.IH [OF 2]
  show ?case
  proof (intro conjI allI impI)
    show "length es = length (call # calls)" using IH es by simp
    show "sequenceCounter svc' = sequenceCounter svc + length (call # calls)"
      using IH c svc' by simp
    fix k assume k: "k < length (call # calls)"
    show "sequenceId (es ! k) =
            intToString (fst ((call # calls) ! k)) @ ''-'' @
            intToString (int (sequenceCounter svc + k + 1))"
    proof (cases k)
      case 0
      then show ?thesis using e es call by simp
    next
      case (Suc j)
      with k have "j < length calls" by simp
      with IH have "sequenceId (es1 ! j) =
          intToString (fst (calls ! j)) @ ''-'' @
          intToString (int (sequenceCounter svc1 + j + 1))"
        by blast
      moreover have "es ! k = es1 ! j" "(call # calls) ! k = calls ! j"
        by (simp_all add: Suc es)
      moreover have "sequenceCounter svc1 + j + 1 = sequenceCounter svc + k + 1"
        unfolding c Suc by arith
      ultimately show ?thesis
        by (simp only:)
    qed
  qed
qed

lemma digits_inj: "digits m = digits n \<Longrightarrow> m = n"
  by (metis digitsValue_digits)

lemma last_field:
  assumes "CHR ''-'' \<notin> set d"
  shows "rev (takeWhile (\<lambda>c. c \<noteq> CHR ''-'') (rev (a @ ''-'' @ d))) = d"
proof -
  have "takeWhile (\<lambda>c. c \<noteq> CHR ''-'') (rev d @ CHR ''-'' # rev a) =
        rev d @ takeWhile (\<lambda>c. c \<noteq> CHR ''-'') (CHR ''-'' # rev a)"
    using assms by (intro takeWhile_append2) auto
  then show ?thesis by simp
qed

lemma digits_no_minus: "CHR ''-'' \<notin> set (digits n)"
  using digits_isDigit [of "CHR ''-''" n] isDigit_plain [of "CHR ''-''"] by blast

lemma sequenceId_inj:
  assumes "a @ ''-'' @ intToString (int m) = b @ ''-'' @ intToString (int n)"
  shows "m = n"
proof -
  have "rev (takeWhile (\<lambda>c. c \<noteq> CHR ''-'') (rev (a @ ''-'' @ digits m))) =
        rev (takeWhile (\<lambda>c. c \<noteq> CHR ''-'') (rev (b @ ''-'' @ digits n)))"
    using assms by (simp add: intToString_def)
  then have "digits m = digits n"
    by (simp only: last_field [OF digits_no_minus])
  then show ?thesis by (rule digits_inj)
qed

lemma sample_ids:
  "intToString 1705323000015 @ ''-'' @ intToString (int (0 + 0 + 1)) = ''1705323000015-1''"
  "intToString 1705323000015 @ ''-'' @ intToString (int (0 + 1 + 1)) = ''1705323000015-2''"
  "intToString 1705323000015 @ ''-'' @ intToString (int (0 + 8 + 1)) = ''1705323000015-9''"
  "intToString 1705323000015 @ ''-'' @ intToString (int (0 + 9 + 1)) = ''1705323000015-10''"
  by (simp_all add: intToString_def digits.simps digitChar_def)

text \<open>
  Claim C2, amended. For every sequence of ticks enriched in order, the sequence
  identifiers are pairwise distinct, and the identifier of the tick at position \<open>k\<close>
  is the clock reading of its call, a hyphen, and the counter \<open>c + k + 1\<close>, where
  \<open>c\<close> is the counter before the first call: the counter part increases by one from
  each tick to the next. (The counter is a natural number here; the floating-point
  counter of the code is exact below \<open>2^53\<close>.)
\<close>

theorem enrichTicks_sequenceIds:
  assumes "enrichTicks svc calls = (es, svc')"
  shows "length es = length calls \<and>
         distinct (map sequenceId es) \<and>
         (\<forall>k < length calls.
            sequenceId (es ! k) =
              intToString (fst (calls ! k)) @ ''-'' @
              intToString (int (sequenceCounter svc + k + 1)))"
proof -
  note ids = enrichTicks_ids [OF assms]
  note len = ids [THEN conjunct1]
  note id = ids [THEN conjunct2, THEN conjunct2, rule_format]
  have "sequenceId (es ! i) \<noteq> sequenceId (es ! j)"
    if "i < length es" "j < length es" "i \<noteq> j" for i j
  proof
    assume eq: "sequenceId (es ! i) = sequenceId (es ! j)"
    from that len have "i < length calls" "j < length calls" by simp_all
    from eq id [OF this(1)] id [OF this(2)]
    have "intToString (fst (calls ! i)) @ ''-'' @ intToString (int (sequenceCounter svc + i + 1)) =
          intToString (fst (calls ! j)) @ ''-'' @ intToString (int (sequenceCounter svc + j + 1))"
      by (simp only:)
    then have "sequenceCounter svc + i + 1 = sequenceCounter svc + j + 1"
      by (rule sequenceId_inj)
    with that show False by simp
  qed
  then have "distinct (map sequenceId es)"
    by (simp add: distinct_conv_nth)
  with ids show ?thesis by blast
qed

theorem enrichTicks_sequenceIds_witness:
  "map sequenceId (fst (enrichTicks \<lparr>sequenceCounter = 0\<rparr>
     (replicate 2
        (1705323000015,
         \<lparr>ric = ''EUR='', price = 115, timestamp = 1705323000000,
          volume = None, bid = None, ask = None\<rparr>,
         \<lparr>data = ''EUR=|115|1705323000000|||'', clientId = ''client-1'',
          receivedAt = 1705323000010\<rparr>)))) =
   [''1705323000015-1'', ''1705323000015-2'']"
proof -
  let ?call = "(1705323000015 :: int,
         \<lparr>ric = ''EUR='', price = 115, timestamp = 1705323000000,
          volume = None, bid = None, ask = None\<rparr>,
         \<lparr>data = ''EUR=|115|1705323000000|||'', clientId = ''client-1'',
          receivedAt = 1705323000010\<rparr>)"
  let ?run = "enrichTicks \<lparr>sequenceCounter = 0\<rparr> (replicate 2 ?call)"
  have run: "?run = (fst ?run, snd ?run)" by simp
  note ids = enrichTicks_sequenceIds [OF run]
  have len: "length (fst ?run) = 2" using ids by simp
  have "sequenceId (fst ?run ! 0) = ''1705323000015-1''"
    "sequenceId (fst ?run ! 1) = ''1705323000015-2''"
    using ids sample_ids by simp_all
  with len show ?thesis
    by (cases "fst ?run"; cases "tl (fst ?run)") auto
qed

text \<open>
  Claim C2 as stated fails: the identifiers are strings, and as strings they do not
  increase. A service that enriches ten ticks within one millisecond gives the ninth
  the identifier \<open>1705323000015-9\<close> and the tenth \<open>1705323000015-10\<close>, which
  is the smaller string.
\<close>

theorem enrichTicks_sequenceIds_counterexample:
  "sequenceId (fst (enrichTicks \<lparr>sequenceCounter = 0\<rparr>
     (replicate 10
        (1705323000015,
         \<lparr>ric = ''EUR='', price = 115, timestamp = 1705323000000,
          volume = None, bid = None, ask = None\<rparr>,
         \<lparr>data = ''EUR=|115|1705323000000|||'', clientId = ''client-1'',
          receivedAt = 1705323000010\<rparr>))) ! 8) = ''1705323000015-9'' \<and>
   sequenceId (fst (enrichTicks \<lparr>sequenceCounter = 0\<rparr>
     (replicate 10
        (1705323000015,
         \<lparr>ric = ''EUR='', price = 115, timestamp = 1705323000000,
          volume = None, bid = None, ask = None\<rparr>,
         \<lparr>data = ''EUR=|115|1705323000000|||'', clientId = ''client-1'',
          receivedAt = 1705323000010\<rparr>))) ! 9) = ''1705323000015-10'' \<and>
   \<not> stringLess ''1705323000015-9'' ''1705323000015-10'' \<and>
   stringLess ''1705323000015-10'' ''1705323000015-9''"
proof -
  let ?call = "(1705323000015 :: int,
         \<lparr>ric = ''EUR='', price = 115, timestamp = 1705323000000,
          volume = None, bid = None, ask = None\<rparr>,
         \<lparr>data = ''EUR=|115|1705323000000|||'', clientId = ''client-1'',
          receivedAt = 1705323000010\<rparr>)"
  let ?run = "enrichTicks \<lparr>sequenceCounter = 0\<rparr> (replicate 10 ?call)"
  have run: "?run = (fst ?run, snd ?run)" by simp
  note ids = enrichTicks_ids [OF run]
  have "sequenceId (fst ?run ! 8) = ''1705323000015-9''"
    "sequenceId (fst ?run ! 9) = ''1705323000015-10''"
    using ids sample_ids by simp_all
  moreover have "\<not> stringLess ''1705323000015-9'' ''1705323000015-10''"
    "stringLess ''1705323000015-10'' ''1705323000015-9''"
    by simp_all
  ultimately show ?thesis by blast
qed

text \<open>
  Claim C8. For a tick that the validator accepted and the raw message it came from,
  the enriched tick carries as latency the receipt time minus the tick's timestamp,
  whatever its sign, and is marked as having passed validation.
\<close>

theorem enrichTick_latency:
  assumes "validateMessage rt cfg now lastPrices (data rawMessage) = (r, lastPrices', w)"
    and "tick r = Some t"
  shows "latencyMs (fst (enrichTick now' svc t rawMessage)) =
           Some (RawMessage.receivedAt rawMessage - timestamp t) \<and>
         validationPassed (fst (enrichTick now' svc t rawMessage)) \<and>
         validationErrors (fst (enrichTick now' svc t rawMessage)) = []"
proof -
  have "minTimestamp \<le> timestamp t"
    using accepted_tick [OF assms] by simp
  then have "timestamp t \<noteq> 0"
    by (simp add: minTimestamp_def)
  then show ?thesis
    by (simp add: enrichTick_def Let_def)
qed

theorem enrichTick_latency_witness:
  "validateMessage sampleRuntime loadConfiguration 1705323000015 Map.empty
     (data \<lparr>data = ''AAPL.O|150.60|1705323000000|1000000|150.10|150.75'',
            clientId = ''client-1'', receivedAt = 1705322999990\<rparr>) =
   (\<lparr>isValid = True,
     tick = Some \<lparr>ric = ''AAPL.O'', price = 150.6, timestamp = 1705323000000,
                  volume = Some 1000000, bid = Some 150.1, ask = Some 150.75\<rparr>,
     errors = []\<rparr>,
    [''AAPL.O'' \<mapsto> 150.6], []) \<and>
   latencyMs (fst (enrichTick 1705323000016 \<lparr>sequenceCounter = 0\<rparr>
      \<lparr>ric = ''AAPL.O'', price = 150.6, timestamp = 1705323000000,
       volume = Some 1000000, bid = Some 150.1, ask = Some 150.75\<rparr>
      \<lparr>data = ''AAPL.O|150.60|1705323000000|1000000|150.10|150.75'',
       clientId = ''client-1'', receivedAt = 1705322999990\<rparr>)) = Some (- 10)"
proof -
  let ?raw = "\<lparr>data = ''AAPL.O|150.60|1705323000000|1000000|150.10|150.75'',
               clientId = ''client-1'', receivedAt = 1705322999990\<rparr>"
  let ?t = "\<lparr>ric = ''AAPL.O'', price = 150.6, timestamp = 1705323000000,
             volume = Some 1000000, bid = Some 150.1, ask = Some 150.75\<rparr>"
  have v: "validateMessage sampleRuntime loadConfiguration 1705323000015 Map.empty (data ?raw) =
     (\<lparr>isValid = True, tick = Some ?t, errors = []\<rparr>, [''AAPL.O'' \<mapsto> 150.6], [])"
    using example_accepted by simp
  have t: "tick \<lparr>isValid = True, tick = Some ?t, errors = []\<rparr> = Some ?t"
    by simp
  have "latencyMs (fst (enrichTick 1705323000016 \<lparr>sequenceCounter = 0\<rparr> ?t ?raw)) = Some (- 10)"
    using enrichTick_latency [OF v t, of 1705323000016 "\<lparr>sequenceCounter = 0\<rparr>"] by simp
  with v show ?thesis by blast
qed

section \<open>Properties of the framing\<close>

lemma indexOf_None: "indexOf s c = None \<longleftrightarrow> c \<notin> set s"
  by (induction s) auto

lemma indexOf_append:
  "indexOf s c = Some i \<Longrightarrow> indexOf (s @ s') c = Some i"
  by (induction s arbitrary: i) (auto split: if_splits)

lemma extractMessages_None:
  "0x0A \<notin> set b \<Longrightarrow> extractMessages b handled = (b, handled)"
  by (subst extractMessages.simps) (simp add: indexOf_None [THEN iffD2])

lemma extractMessages_append:
  "extractMessages (b @ decoded) handled =
     (case extractMessages b handled of (b', handled') \<Rightarrow> extractMessages (b' @ decoded) handled')"
proof (induction b handled rule: extractMessages.induct)
  case (1 buffer handled)
  show ?case
  proof (cases "indexOf buffer 0x0A")
    case None
    then have "extractMessages buffer handled = (buffer, handled)"
      by (subst extractMessages.simps) simp
    then show ?thesis by simp
  next
    case (Some i)
    then have i: "i < length buffer" by (rule indexOf_less)
    let ?h = "if trimUnits (take i buffer) \<noteq> [] then handled @ [trimUnits (take i buffer)]
              else handled"
    have l: "extractMessages (buffer @ decoded) handled =
               extractMessages (drop (i + 1) buffer @ decoded) ?h"
      using i indexOf_append [OF Some, of decoded]
      by (subst extractMessages.simps) (simp add: Let_def)
    have r: "extractMessages buffer handled = extractMessages (drop (i + 1) buffer) ?h"
      using Some by (subst extractMessages.simps) (simp add: Let_def)
    show ?thesis
      unfolding l r using "1.IH" [OF Some refl refl] by simp
  qed
qed

lemma extractMessages_no_newline:
  "extractMessages b handled = (b', handled') \<Longrightarrow> 0x0A \<notin> set b'"
proof (induction b handled rule: extractMessages.induct)
  case (1 buffer handled)
  show ?case
  proof (cases "indexOf buffer 0x0A")
    case None
    with "1.prems" show ?thesis
      by (subst (asm) extractMessages.simps) (simp add: indexOf_None)
  next
    case (Some i)
    with "1.prems" "1.IH" [OF Some refl refl] show ?thesis
      by (subst (asm) extractMessages.simps) (simp add: Let_def)
  qed
qed

lemma extractMessages_handled:
  "extractMessages b handled =
     (fst (extractMessages b []), handled @ snd (extractMessages b []))"
proof (induction "length b" arbitrary: b handled rule: less_induct)
  case less
  show ?case
  proof (cases "indexOf b 0x0A")
    case None
    then show ?thesis
      by (simp add: extractMessages_None indexOf_None)
  next
    case (Some i)
    let ?m = "trimUnits (take i b)" and ?rest = "drop (i + 1) b"
    have shorter: "length ?rest < length b"
      using indexOf_less [OF Some] by simp
    have a: "extractMessages b h =
               extractMessages ?rest (if ?m \<noteq> [] then h @ [?m] else h)" for h
      using Some by (subst extractMessages.simps) (simp add: Let_def)
    have ih: "extractMessages ?rest h =
                (fst (extractMessages ?rest []), h @ snd (extractMessages ?rest []))" for h
      using less [OF shorter] .
    have 1: "extractMessages b handled =
               (fst (extractMessages ?rest []),
                (if ?m \<noteq> [] then handled @ [?m] else handled) @ snd (extractMessages ?rest []))"
      unfolding a by (rule ih)
    have 2: "extractMessages b [] =
               (fst (extractMessages ?rest []),
                (if ?m \<noteq> [] then [?m] else []) @ snd (extractMessages ?rest []))"
      unfolding a using ih [of "if ?m \<noteq> [] then [] @ [?m] else []"] by simp
    show ?thesis
      by (simp add: 1 2)
  qed
qed

text \<open>
  Feeding chunks one by one amounts to decoding each chunk by itself and framing the
  texts joined together. This is the same as feeding the whole stream at once when the
  chunks are cut between characters, as they always are in a stream of ASCII bytes.
\<close>

lemma onDataAll_decoded:
  assumes "0x0A \<notin> set (buffer c)" and "registered c"
  shows "onDataAll c chunks =
     (c\<lparr>buffer := fst (extractMessages (buffer c @ concat (map bufferToString chunks)) [])\<rparr>,
      snd (extractMessages (buffer c @ concat (map bufferToString chunks)) []))"
  using assms
proof (induction chunks arbitrary: c)
  case Nil
  then show ?case by (simp add: extractMessages_None)
next
  case (Cons chunk chunks)
  let ?b = "buffer c @ bufferToString chunk"
  let ?rest = "concat (map bufferToString chunks)"
  let ?c = "c\<lparr>buffer := fst (extractMessages ?b [])\<rparr>"
  have first: "onData c chunk = (?c, snd (extractMessages ?b []))"
    using Cons.prems by (simp add: onData_def split: prod.splits)
  have "0x0A \<notin> set (buffer ?c)" "registered ?c"
    using Cons.prems extractMessages_no_newline [of ?b "[]"]
    by (simp_all add: prod_eq_iff)
  note rest = Cons.IH [OF this]
  have "extractMessages (?b @ ?rest) [] =
          extractMessages (fst (extractMessages ?b []) @ ?rest) (snd (extractMessages ?b []))"
    by (subst extractMessages_append) (simp add: split_beta)
  then have "extractMessages (?b @ ?rest) [] =
          (fst (extractMessages (buffer ?c @ ?rest) []),
           snd (extractMessages ?b []) @ snd (extractMessages (buffer ?c @ ?rest) []))"
    by (subst (asm) extractMessages_handled) simp
  then show ?case
    by (simp add: first rest)
qed

lemma onData_chunking:
  assumes "0x0A \<notin> set (buffer c)"
    and "bufferToString (concat chunks) = concat (map bufferToString chunks)"
  shows "onDataAll c chunks = onData c (concat chunks)"
proof (cases "registered c")
  case True
  then show ?thesis
    using onDataAll_decoded [OF assms(1) True, of chunks] assms(2)
    by (simp add: onData_def split_beta)
next
  case False
  then have "onDataAll c chunks = (c, [])"
    by (induction chunks) (simp_all add: onData_def)
  with False show ?thesis by (simp add: onData_def)
qed

lemma utf8Decode_ascii:
  assumes "\<forall>b \<in> set bytes. b \<le> 0x7F"
  shows "utf8Decode 0 0 0x80 0xBF bytes = map (\<lambda>b. of_nat (unat b)) bytes"
  using assms
proof (induction bytes)
  case Nil
  then show ?case by simp
next
  case (Cons b bytes)
  then have "unat b \<le> 0x7F"
    by (simp add: word_le_nat_alt)
  with Cons show ?case
    by simp
qed

lemma onData_chunking_ascii:
  assumes "0x0A \<notin> set (buffer c)" and "\<forall>chunk \<in> set chunks. \<forall>b \<in> set chunk. b \<le> 0x7F"
  shows "onDataAll c chunks = onData c (concat chunks)"
proof -
  let ?ascii = "map (\<lambda>b :: 8 word. of_nat (unat b) :: 16 word)"
  have "bufferToString chunk = ?ascii chunk" if "chunk \<in> set chunks" for chunk
    using assms(2) that by (intro utf8Decode_ascii [folded bufferToString_def]) auto
  then have each: "map bufferToString chunks = map ?ascii chunks"
    by (intro map_cong refl)
  have "bufferToString (concat chunks) = ?ascii (concat chunks)"
    using assms(2) by (intro utf8Decode_ascii [folded bufferToString_def]) auto
  also have "\<dots> = concat (map ?ascii chunks)"
    by (rule map_concat)
  also have "\<dots> = concat (map bufferToString chunks)"
    by (simp only: each)
  finally show ?thesis
    using assms(1) by (intro onData_chunking)
qed

lemma bufferToString_cut:
  "bufferToString [0xC3, 0xA9, 0x7C, 0x31, 0x0A] = [0xE9, 0x7C, 0x31, 0x0A]"
  "bufferToString [0xC3] = [0xFFFD]"
  "bufferToString [0xA9, 0x7C, 0x31, 0x0A] = [0xFFFD, 0x7C, 0x31, 0x0A]"
  by (simp_all add: bufferToString_def codeUnits_def)

text \<open>
  Claim C6. The handler does not frame every split of a stream alike. The five bytes
  \<open>C3 A9 7C 31 0A\<close> are the UTF-8 text of an e with acute accent followed by \<open>|1\<close> and a
  newline. Delivered in one chunk, they hand the record of code units \<open>E9 7C 31\<close> to
  \<open>handleMessage\<close>. Delivered in two chunks, the first of them the byte \<open>C3\<close> alone,
  they hand over the record \<open>FFFD FFFD 7C 31\<close>: the cut character has become two
  replacement characters, because each chunk is decoded by itself.
\<close>

theorem onData_split_character:
  "concat [[0xC3], [0xA9, 0x7C, 0x31, 0x0A]] = [0xC3, 0xA9, 0x7C, 0x31, 0x0A :: 8 word] \<and>
   onData \<lparr>registered = True, buffer = []\<rparr> [0xC3, 0xA9, 0x7C, 0x31, 0x0A] =
     (\<lparr>registered = True, buffer = []\<rparr>, [[0xE9, 0x7C, 0x31]]) \<and>
   onDataAll \<lparr>registered = True, buffer = []\<rparr> [[0xC3], [0xA9, 0x7C, 0x31, 0x0A]] =
     (\<lparr>registered = True, buffer = []\<rparr>, [[0xFFFD, 0xFFFD, 0x7C, 0x31]])"
  by (simp add: onData_def bufferToString_cut extractMessages.simps trimUnits_def
        isWhiteSpaceUnit_def)

section \<open>Properties of the sender\<close>

lemma flushLoop_disconnected:
  "\<not> isConnected s \<Longrightarrow> flushLoop drops s queue = s"
proof (induction queue arbitrary: drops s)
  case Nil
  then show ?case by simp
next
  case (Cons message rest)
  have "(case drops of True # _ \<Rightarrow> s\<lparr>isConnected := False\<rparr> | _ \<Rightarrow> s) = s"
    using Cons.prems by (auto split: list.splits bool.splits)
  with Cons show ?case by (simp split: option.splits)
qed

lemma flushLoop_no_socket:
  "socket s = None \<Longrightarrow> socket (flushLoop drops s queue) = None"
  by (induction queue arbitrary: drops s) (auto split: list.splits bool.splits)

lemma flushLoop_written:
  assumes "isConnected s" and "socket s = Some written"
  shows "socket (flushLoop drops s queue) =
           Some (written @ map (\<lambda>m. m @ [CHR 0x0A])
                   (take (if True \<in> set drops then Suc (length (takeWhile Not drops))
                          else length queue) queue))"
  using assms
proof (induction queue arbitrary: drops s written)
  case Nil
  then show ?case by simp
next
  case (Cons message rest)
  let ?s1 = "s\<lparr>socket := Some (written @ [message @ [CHR 0x0A]])\<rparr>"
  show ?case
  proof (cases drops)
    case Nil
    with Cons.prems Cons.IH [of ?s1 "written @ [message @ [CHR 0x0A]]" "[]"] show ?thesis
      by simp
  next
    case (Cons d ds)
    show ?thesis
    proof (cases d)
      case True
      with Cons Cons.prems show ?thesis
        by (simp add: flushLoop_disconnected)
    next
      case False
      with Cons Cons.prems Cons.IH [of ?s1 "written @ [message @ [CHR 0x0A]]" ds] show ?thesis
        by simp
    qed
  qed
qed

lemma flushLoop_queue: "messageQueue (flushLoop drops s queue) = messageQueue s"
  by (induction queue arbitrary: drops s) (auto split: list.splits bool.splits option.splits)

lemma sendTick_disconnected:
  "\<not> isConnected s \<Longrightarrow>
     sendTick rt s t = s\<lparr>messageQueue := messageQueue s @ [formatTick rt t]\<rparr>"
  by (simp add: sendTick_def)

lemma sendTicks_disconnected:
  "\<not> isConnected s \<Longrightarrow>
     foldl (sendTick rt) s ticks = s\<lparr>messageQueue := messageQueue s @ map (formatTick rt) ticks\<rparr>"
proof (induction ticks arbitrary: s)
  case Nil
  then show ?case by simp
next
  case (Cons t ticks)
  then show ?case by (simp add: sendTick_disconnected)
qed

text \<open>
  Claim C10. A run of \<open>flushMessageQueue\<close> on a queue that is not empty leaves the queue
  empty, whenever the connection is lost during the run. On a connected sender the
  messages written are those up to and including the one after which the connection
  was lost; the messages behind it are neither written nor kept.
\<close>

theorem flushMessageQueue_empties_queue:
  assumes "messageQueue s \<noteq> []"
  shows "messageQueue (flushMessageQueue drops s) = [] \<and>
         (\<forall>written. isConnected s \<and> socket s = Some written \<longrightarrow>
            socket (flushMessageQueue drops s) =
              Some (written @ map (\<lambda>m. m @ [CHR 0x0A])
                      (take (if True \<in> set drops then Suc (length (takeWhile Not drops))
                             else length (messageQueue s)) (messageQueue s))))"
  using assms by (simp add: flushMessageQueue_def flushLoop_written)

theorem flushMessageQueue_empties_queue_witness:
  "messageQueue \<lparr>socket = Some [], reconnectAttempts = 0, isConnected = True,
                 messageQueue = [''a'', ''b'', ''c'']\<rparr> \<noteq> [] \<and>
   flushMessageQueue [True]
     \<lparr>socket = Some [], reconnectAttempts = 0, isConnected = True,
      messageQueue = [''a'', ''b'', ''c'']\<rparr> =
     \<lparr>socket = Some [''a'' @ [CHR 0x0A]], reconnectAttempts = 0, isConnected = False,
      messageQueue = []\<rparr>"
proof -
  let ?s = "\<lparr>socket = Some [], reconnectAttempts = 0, isConnected = True,
             messageQueue = [''a'', ''b'', ''c'']\<rparr>"
  have h: "messageQueue ?s \<noteq> []" by simp
  note w = flushMessageQueue_empties_queue [OF h, of "[True]"]
  have "messageQueue (flushMessageQueue [True] ?s) = []"
    "socket (flushMessageQueue [True] ?s) = Some [''a'' @ [CHR 0x0A]]"
    using w by simp_all
  moreover have "isConnected (flushMessageQueue [True] ?s) = False"
    "reconnectAttempts (flushMessageQueue [True] ?s) = 0"
    by (simp_all add: flushMessageQueue_def)
  ultimately have "flushMessageQueue [True] ?s =
     \<lparr>socket = Some [''a'' @ [CHR 0x0A]], reconnectAttempts = 0, isConnected = False,
      messageQueue = []\<rparr>"
    by (cases "flushMessageQueue [True] ?s") simp
  with h show ?thesis by blast
qed

text \<open>
  Claim C7. While the sender is disconnected, each \<open>sendTick\<close> appends the encoded tick
  to the queue and changes nothing else. When the connection is then established and
  stays up during the flush, the socket receives the queued messages followed by the
  encoded ticks, each once, each followed by a newline, in the order of the calls, and
  the queue is empty afterwards. With an empty queue at the start, these are exactly
  the encoded ticks of the calls.
\<close>

theorem sendTick_queue_then_flush:
  assumes "\<not> isConnected s"
  shows "foldl (sendTick rt) s ticks =
           s\<lparr>messageQueue := messageQueue s @ map (formatTick rt) ticks\<rparr> \<and>
         (True \<notin> set drops \<longrightarrow>
            socket (onConnect drops (connect (foldl (sendTick rt) s ticks))) =
              Some (map (\<lambda>m. m @ [CHR 0x0A]) (messageQueue s @ map (formatTick rt) ticks)) \<and>
            messageQueue (onConnect drops (connect (foldl (sendTick rt) s ticks))) = [] \<and>
            (messageQueue s = [] \<longrightarrow>
               socket (onConnect drops (connect (foldl (sendTick rt) s ticks))) =
                 Some (map (\<lambda>t. formatTick rt t @ [CHR 0x0A]) ticks)))"
proof -
  let ?s = "foldl (sendTick rt) s ticks"
  have q: "?s = s\<lparr>messageQueue := messageQueue s @ map (formatTick rt) ticks\<rparr>"
    using assms by (rule sendTicks_disconnected)
  let ?c = "(connect ?s)\<lparr>isConnected := True, reconnectAttempts := 0\<rparr>"
  have c: "isConnected ?c" "socket ?c = Some []"
    "messageQueue ?c = messageQueue s @ map (formatTick rt) ticks"
    by (simp_all add: connect_def q)
  have "socket (flushMessageQueue drops ?c) =
          Some (map (\<lambda>m. m @ [CHR 0x0A]) (messageQueue ?c))" if "True \<notin> set drops"
    using that flushLoop_written [OF c(1,2), of drops "messageQueue ?c"] c
    by (simp add: flushMessageQueue_def connect_def)
  moreover have "messageQueue (flushMessageQueue drops ?c) = []"
    by (simp add: flushMessageQueue_def)
  ultimately have flushed:
    "True \<notin> set drops \<longrightarrow>
       socket (onConnect drops (connect ?s)) =
         Some (map (\<lambda>m. m @ [CHR 0x0A]) (messageQueue s @ map (formatTick rt) ticks)) \<and>
       messageQueue (onConnect drops (connect ?s)) = []"
    using c(3) by (simp add: onConnect_def)
  have "map (\<lambda>m. m @ [CHR 0x0A]) ([] @ map (formatTick rt) ticks) =
        map (\<lambda>t. formatTick rt t @ [CHR 0x0A]) ticks"
    by (simp add: comp_def)
  with flushed q show ?thesis
    by metis
qed

theorem sendTick_queue_then_flush_witness:
  "\<not> isConnected \<lparr>socket = None, reconnectAttempts = 0, isConnected = False, messageQueue = []\<rparr> \<and>
   True \<notin> set [False, False] \<and>
   socket (onConnect [False, False] (connect (foldl (sendTick sampleRuntime)
      \<lparr>socket = None, reconnectAttempts = 0, isConnected = False, messageQueue = []\<rparr>
      [\<lparr>ric = ''EUR='', price = 115, timestamp = 1705323000000,
        volume = None, bid = None, ask = None\<rparr>,
       \<lparr>ric = ''aapl.o'', price = 150.6, timestamp = 1705323000000,
        volume = Some 1000000, bid = Some 150.1, ask = None\<rparr>]))) =
     Some [''EUR=|115|1705323000000|||'' @ [CHR 0x0A],
           ''aapl.o|150.6|1705323000000|1000000|150.1|'' @ [CHR 0x0A]]"
proof -
  let ?s = "\<lparr>socket = None, reconnectAttempts = 0, isConnected = False, messageQueue = []\<rparr>"
  have h: "\<not> isConnected ?s" by simp
  have d: "True \<notin> set [False, False]" by simp
  have q: "messageQueue ?s = []" by simp
  let ?ticks = "[\<lparr>ric = ''EUR='', price = 115, timestamp = 1705323000000,
        volume = None, bid = None, ask = None\<rparr>,
       \<lparr>ric = ''aapl.o'', price = 150.6, timestamp = 1705323000000,
        volume = Some 1000000, bid = Some 150.1, ask = None\<rparr>]"
  note w = sendTick_queue_then_flush
    [OF h, where rt = sampleRuntime and ticks = ?ticks and drops = "[False, False]"]
  have "socket (onConnect [False, False] (connect (foldl (sendTick sampleRuntime) ?s ?ticks))) =
          Some (map (\<lambda>t. formatTick sampleRuntime t @ [CHR 0x0A]) ?ticks)"
    using w d q by blast
  then show ?thesis
    using h d by (simp only: sample_formats list.map) simp
qed

end
